theory Spec2Isabelle
  imports Main "HOL-Library.Sublist"
begin

section \<open>Data model (types.ts)\<close>

text \<open>
  A JavaScript string is modelled as a \<^typ>\<open>string\<close>; a property that may be absent
  (\<^verbatim>\<open>undefined\<close>) is an \<^typ>\<open>'a option\<close>.
\<close>

record edit_op =
  oldString :: "string option"
  newString :: "string option"
  replaceAll :: "bool option"

text \<open>The \<^verbatim>\<open>input\<close> object of a tool invocation, with the properties the parser reads.\<close>

record tool_input =
  file_path :: "string option"
  input_content :: "string option"
  old_string :: "string option"
  new_string :: "string option"
  replace_all :: "bool option"
  edits :: "edit_op list option"

record content_block =
  block_type :: string
  name :: "string option"
  input :: "tool_input option"
  block_text :: "string option"

datatype message_content =
    StringContent string
  | ArrayContent "content_block list"

text \<open>Field \<open>message\<close> stands for \<^verbatim>\<open>entry.message?.content\<close>.\<close>

record ClaudeLogEntry =
  entry_type :: string
  timestamp :: "string option"
  message :: "message_content option"

text \<open>
  What \<^verbatim>\<open>JSON.parse\<close> returns for a line: the value \<^verbatim>\<open>null\<close>, on which every
  property access throws a TypeError, or an entry of the shape declared in types.ts, with
  every property the parser guards kept optional. Any other value that is not an object
  has no properties and reads as an entry with \<open>timestamp\<close> and \<open>message\<close> absent and
  an \<open>entry_type\<close> that is neither user nor assistant.
\<close>

datatype parsed_value =
    JsonNull
  | Entry ClaudeLogEntry

text \<open>A log line: \<open>None\<close> when \<^verbatim>\<open>JSON.parse\<close> throws on it, else the value parsed.\<close>

type_synonym log_line = "parsed_value option"

text \<open>What the parser's operations throw to their caller.\<close>

datatype parser_error =
    SessionFileNotFound string
  | ReadFailed
  | TypeError

datatype change_type = Create | Edit | Delete | Write

record FileChange =
  fc_id :: string
  fc_timestamp :: "string option"
  fc_type :: change_type
  filePath :: "string option"
  newContent :: "string option"
  changes :: "edit_op list option"
  fc_sessionId :: "string option"
  fc_sessionFile :: "string option"
  isLatestSession :: "bool option"
  fc_userMessage :: "string option"

record SessionMetadata =
  sessionId :: string
  sessionFile :: string
  sm_timestamp :: string
  mtime :: int
  sm_userMessage :: string
  fileCount :: nat
  isLatest :: bool

record ConversationTurn =
  turn_id :: string
  turn_timestamp :: string
  userMessage :: string
  userMessageFull :: string
  assistantMessage :: string
  fileChanges :: "FileChange list"
  turn_isLatestSession :: bool

record SessionWithTurns =
  swt_sessionId :: string
  swt_sessionFile :: string
  swt_timestamp :: string
  swt_mtime :: int
  swt_isLatest :: bool
  turns :: "ConversationTurn list"

section \<open>JavaScript string primitives\<close>

text \<open>
  \<^verbatim>\<open>String.prototype.trim\<close> strips white space and line terminators from both ends.
  Characters are read as code units below 256, where these are TAB, LF, VT, FF, CR, SP
  and NBSP.
\<close>

definition isWhiteSpace :: "char \<Rightarrow> bool" where
  "isWhiteSpace c \<longleftrightarrow>
     c \<in> set [CHR 0x09, CHR 0x0A, CHR 0x0B, CHR 0x0C, CHR 0x0D, CHR 0x20, CHR 0xA0]"

definition trim :: "string \<Rightarrow> string" where
  "trim s = rev (dropWhile isWhiteSpace (rev (dropWhile isWhiteSpace s)))"

text \<open>Truthiness of an optional string: \<^verbatim>\<open>undefined\<close> and \<^verbatim>\<open>''\<close> are falsy.\<close>

fun truthy :: "string option \<Rightarrow> bool" where
  "truthy None = False"
| "truthy (Some s) = (s \<noteq> [])"

text \<open>A template literal renders an absent value as the word \<^verbatim>\<open>undefined\<close>.\<close>

fun template :: "string option \<Rightarrow> string" where
  "template None = ''undefined''"
| "template (Some s) = s"

text \<open>\<^verbatim>\<open>x || d\<close> on an optional string.\<close>

definition or_else :: "string option \<Rightarrow> string \<Rightarrow> string" where
  "or_else x d = (if truthy x then the x else d)"

definition digit_char :: "nat \<Rightarrow> char" where
  "digit_char d = ''0123456789'' ! d"

text \<open>Decimal rendering of a counter inside a template literal.\<close>

fun string_of_nat :: "nat \<Rightarrow> string" where
  "string_of_nat n =
     (if n < 10 then [digit_char n] else string_of_nat (n div 10) @ [digit_char (n mod 10)])"

declare string_of_nat.simps [simp del]

definition endsWith :: "string \<Rightarrow> string \<Rightarrow> bool" where
  "endsWith s suf \<longleftrightarrow>
     length suf \<le> length s \<and> drop (length s - length suf) s = suf"

text \<open>\<^verbatim>\<open>s.replace(pat, rep)\<close> with a string pattern: the first occurrence only.\<close>

fun replace_first :: "string \<Rightarrow> string \<Rightarrow> string \<Rightarrow> string" where
  "replace_first pat rep [] = (if pat = [] then rep else [])"
| "replace_first pat rep (c # cs) =
     (if prefix pat (c # cs) then rep @ drop (length pat) (c # cs)
      else c # replace_first pat rep cs)"

section \<open>Classifying user entries (parser.ts, isToolResultEntry)\<close>

text \<open>
  \<^verbatim>\<open>entry.message?.content\<close> used as a condition: an absent message and the empty
  string are falsy, every array is truthy.
\<close>

fun content_truthy :: "message_content option \<Rightarrow> bool" where
  "content_truthy None = False"
| "content_truthy (Some (StringContent s)) = (s \<noteq> [])"
| "content_truthy (Some (ArrayContent bs)) = True"

text \<open>
  \<^verbatim>\<open>content.type === 'text' && content.text && content.text.trim()\<close>
\<close>

definition has_text :: "content_block \<Rightarrow> bool" where
  "has_text b \<longleftrightarrow>
     block_type b = ''text'' \<and> truthy (block_text b) \<and> trim (the (block_text b)) \<noteq> []"

text \<open>The two loops of \<^verbatim>\<open>isToolResultEntry\<close> over the content array.\<close>

fun text_loop :: "content_block list \<Rightarrow> bool" where
  "text_loop [] = False"
| "text_loop (b # bs) = (if has_text b then True else text_loop bs)"

fun tool_result_loop :: "content_block list \<Rightarrow> bool" where
  "tool_result_loop [] = False"
| "tool_result_loop (b # bs) =
     (if block_type b = ''tool_result'' then True else tool_result_loop bs)"

definition isToolResultEntry :: "ClaudeLogEntry \<Rightarrow> bool" where
  "isToolResultEntry entry =
     (if \<not> content_truthy (message entry) then False
      else case message entry of
        Some (StringContent s) \<Rightarrow> False
      | Some (ArrayContent bs) \<Rightarrow>
          (if text_loop bs then False
           else if tool_result_loop bs then True
           else False)
      | None \<Rightarrow> False)"

section \<open>The flat extraction path (parser.ts, extractFileChange and parseLogFile)\<close>

text \<open>\<^verbatim>\<open>input?.p\<close>: reading a property through an optional \<^verbatim>\<open>input\<close>.\<close>

definition input_prop :: "content_block \<Rightarrow> (tool_input \<Rightarrow> 'a option) \<Rightarrow> 'a option" where
  "input_prop b p = (case input b of None \<Rightarrow> None | Some i \<Rightarrow> p i)"

definition mkChange :: "string \<Rightarrow> string option \<Rightarrow> change_type \<Rightarrow> string option \<Rightarrow>
    string option \<Rightarrow> edit_op list option \<Rightarrow> bool option \<Rightarrow> FileChange" where
  "mkChange i ts ty fp nc chs il =
     \<lparr>fc_id = i, fc_timestamp = ts, fc_type = ty, filePath = fp, newContent = nc,
      changes = chs, fc_sessionId = None, fc_sessionFile = None, isLatestSession = il,
      fc_userMessage = None\<rparr>"

text \<open>The single replacement operation that an \<^verbatim>\<open>Edit\<close> invocation carries.\<close>

definition single_edit :: "content_block \<Rightarrow> edit_op list" where
  "single_edit b =
     [\<lparr>oldString = input_prop b old_string, newString = input_prop b new_string,
       replaceAll = input_prop b replace_all\<rparr>]"

text \<open>
  The loop of \<^verbatim>\<open>extractFileChange\<close>: it returns at the first \<^verbatim>\<open>tool_use\<close> block named
  Write, Edit or MultiEdit, and continues past every other block.
\<close>

fun extractFileChange_loop :: "string option \<Rightarrow> content_block list \<Rightarrow> FileChange option" where
  "extractFileChange_loop ts [] = None"
| "extractFileChange_loop ts (b # bs) =
     (if block_type b = ''tool_use'' then
        (if name b = Some ''Write'' then
           Some (mkChange (template ts @ ''-write'') ts Write
                   (input_prop b file_path) (input_prop b input_content) None None)
         else if name b = Some ''Edit'' then
           Some (mkChange (template ts @ ''-edit'') ts Edit
                   (input_prop b file_path) None (Some (single_edit b)) None)
         else if name b = Some ''MultiEdit'' then
           Some (mkChange (template ts @ ''-multiedit'') ts Edit
                   (input_prop b file_path) None (input_prop b edits) None)
         else extractFileChange_loop ts bs)
      else extractFileChange_loop ts bs)"

definition extractFileChange :: "ClaudeLogEntry \<Rightarrow> FileChange option" where
  "extractFileChange entry =
     (case message entry of
        Some (ArrayContent bs) \<Rightarrow> extractFileChange_loop (timestamp entry) bs
      | _ \<Rightarrow> None)"

text \<open>
  \<^verbatim>\<open>parseLogFile\<close> over the lines of a readable file. The \<^verbatim>\<open>try\<close> holds the whole
  body of the loop: a line on which \<^verbatim>\<open>JSON.parse\<close> throws is caught and skipped, and
  so is a line that parses to \<^verbatim>\<open>null\<close>, where \<^verbatim>\<open>entry.type\<close> throws.
\<close>

fun parseLogFile :: "log_line list \<Rightarrow> FileChange list" where
  "parseLogFile [] = []"
| "parseLogFile (None # ls) = parseLogFile ls"
| "parseLogFile (Some JsonNull # ls) = parseLogFile ls"
| "parseLogFile (Some (Entry entry) # ls) =
     (if entry_type entry = ''assistant'' \<and> content_truthy (message entry) then
        (case extractFileChange entry of
           Some change \<Rightarrow> change # parseLogFile ls
         | None \<Rightarrow> parseLogFile ls)
      else parseLogFile ls)"

section \<open>The turn extraction path (parser.ts, extractAllFileChanges)\<close>

text \<open>The \<^verbatim>\<open>switch\<close> of \<^verbatim>\<open>extractAllFileChanges\<close> on the tool name.\<close>

definition switch_change :: "string \<Rightarrow> string option \<Rightarrow> bool \<Rightarrow> nat \<Rightarrow> content_block \<Rightarrow>
    FileChange option" where
  "switch_change turnId ts il changeIndex b =
     (if name b = Some ''Write'' then
        Some (mkChange (turnId @ ''-'' @ template ts @ ''-write-'' @ string_of_nat changeIndex)
                (Some (or_else ts [])) Write
                (input_prop b file_path) (input_prop b input_content) None (Some il))
      else if name b = Some ''Edit'' then
        Some (mkChange (turnId @ ''-'' @ template ts @ ''-edit-'' @ string_of_nat changeIndex)
                (Some (or_else ts [])) Edit
                (input_prop b file_path) None (Some (single_edit b)) (Some il))
      else if name b = Some ''MultiEdit'' then
        Some (mkChange (turnId @ ''-'' @ template ts @ ''-multiedit-'' @ string_of_nat changeIndex)
                (Some (or_else ts [])) Edit
                (input_prop b file_path) None (input_prop b edits) (Some il))
      else None)"

text \<open>
  The loop over the content array; \<open>changeIndex\<close> is the counter before the block is
  read. It is incremented at every \<^verbatim>\<open>tool_use\<close> block, and a change is pushed only if
  its \<^verbatim>\<open>filePath\<close> is truthy.
\<close>

fun extractAllFileChanges_loop :: "string \<Rightarrow> string option \<Rightarrow> bool \<Rightarrow> nat \<Rightarrow>
    content_block list \<Rightarrow> FileChange list" where
  "extractAllFileChanges_loop turnId ts il changeIndex [] = []"
| "extractAllFileChanges_loop turnId ts il changeIndex (b # bs) =
     (if block_type b = ''tool_use'' then
        (case switch_change turnId ts il (changeIndex + 1) b of
           Some change \<Rightarrow>
             (if truthy (filePath change)
              then change # extractAllFileChanges_loop turnId ts il (changeIndex + 1) bs
              else extractAllFileChanges_loop turnId ts il (changeIndex + 1) bs)
         | None \<Rightarrow> extractAllFileChanges_loop turnId ts il (changeIndex + 1) bs)
      else extractAllFileChanges_loop turnId ts il changeIndex bs)"

definition extractAllFileChanges :: "ClaudeLogEntry \<Rightarrow> string \<Rightarrow> bool \<Rightarrow> FileChange list" where
  "extractAllFileChanges entry turnId il =
     (case message entry of
        Some (ArrayContent bs) \<Rightarrow> extractAllFileChanges_loop turnId (timestamp entry) il 0 bs
      | _ \<Rightarrow> [])"

section \<open>Message text (parser.ts, extractUserMessage and extractAssistantText)\<close>

fun first_text :: "content_block list \<Rightarrow> string option" where
  "first_text [] = None"
| "first_text (b # bs) = (if has_text b then block_text b else first_text bs)"

definition extractUserMessage :: "ClaudeLogEntry \<Rightarrow> string" where
  "extractUserMessage entry =
     (if \<not> content_truthy (message entry) then ''No message''
      else case message entry of
        Some (StringContent s) \<Rightarrow> (if trim s \<noteq> [] then trim s else ''No message'')
      | Some (ArrayContent bs) \<Rightarrow>
          (case first_text bs of Some t \<Rightarrow> t | None \<Rightarrow> ''No message'')
      | None \<Rightarrow> ''No message'')"

text \<open>\<^verbatim>\<open>parts.join(sep)\<close>\<close>

fun join :: "string \<Rightarrow> string list \<Rightarrow> string" where
  "join sep [] = []"
| "join sep [p] = p"
| "join sep (p # q # ps) = p @ sep @ join sep (q # ps)"

definition blank_line :: string where
  "blank_line = [CHR 0x0A, CHR 0x0A]"

definition extractAssistantText :: "ClaudeLogEntry \<Rightarrow> string" where
  "extractAssistantText entry =
     (if \<not> content_truthy (message entry) then []
      else case message entry of
        Some (StringContent s) \<Rightarrow> trim s
      | Some (ArrayContent bs) \<Rightarrow>
          join blank_line (map (\<lambda>b. trim (the (block_text b))) (filter has_text bs))
      | None \<Rightarrow> [])"

section \<open>Conversation turns (parser.ts, the loop of getSessionWithTurns)\<close>

text \<open>The three variables of the loop: the emitted turns, the open turn and the counter.\<close>

record turn_state =
  st_turns :: "ConversationTurn list"
  currentTurn :: "ConversationTurn option"
  turnCounter :: nat

text \<open>
  \<^verbatim>\<open>if (currentTurn && currentTurn.fileChanges.length > 0) turns.push(currentTurn)\<close>
\<close>

definition push_turn :: "ConversationTurn option \<Rightarrow> ConversationTurn list \<Rightarrow>
    ConversationTurn list" where
  "push_turn cur ts =
     (case cur of
        Some t \<Rightarrow> (if length (fileChanges t) > 0 then ts @ [t] else ts)
      | None \<Rightarrow> ts)"

definition new_turn :: "string \<Rightarrow> nat \<Rightarrow> string \<Rightarrow> string \<Rightarrow> bool \<Rightarrow> ConversationTurn" where
  "new_turn sid counter ts msg il =
     \<lparr>turn_id = sid @ ''-turn-'' @ string_of_nat counter, turn_timestamp = ts,
      userMessage = msg, userMessageFull = msg, assistantMessage = [],
      fileChanges = [], turn_isLatestSession = il\<rparr>"

text \<open>The branch for \<^verbatim>\<open>entry.type === 'user'\<close>; \<open>now\<close> is the clock reading.\<close>

definition user_step :: "string \<Rightarrow> bool \<Rightarrow> string \<Rightarrow> ClaudeLogEntry \<Rightarrow> turn_state \<Rightarrow>
    turn_state" where
  "user_step sid il now entry st =
     (if entry_type entry = ''user'' then
        (if \<not> isToolResultEntry entry then
           \<lparr>st_turns = push_turn (currentTurn st) (st_turns st),
            currentTurn = Some (new_turn sid (turnCounter st + 1)
                                  (or_else (timestamp entry) now) (extractUserMessage entry) il),
            turnCounter = turnCounter st + 1\<rparr>
         else st)
      else st)"

definition is_array :: "message_content option \<Rightarrow> bool" where
  "is_array c = (case c of Some (ArrayContent bs) \<Rightarrow> True | _ \<Rightarrow> False)"

text \<open>
  Appending to the open turn: the changes, then the assistant text after a blank line.
\<close>

definition add_to_turn :: "FileChange list \<Rightarrow> string \<Rightarrow> ConversationTurn \<Rightarrow> ConversationTurn" where
  "add_to_turn chs assistantText t =
     t\<lparr>fileChanges := (if length chs > 0 then fileChanges t @ chs else fileChanges t),
       assistantMessage :=
         (if assistantText \<noteq> [] then
            (if assistantMessage t \<noteq> [] then assistantMessage t @ blank_line @ assistantText
             else assistantText)
          else assistantMessage t)\<rparr>"

text \<open>
  The branch for an assistant entry with array content. The changes are extracted
  under the id of the open turn, or under \<^verbatim>\<open>`${sessionId}-turn-0`\<close> when none is open,
  before a default turn is created.
\<close>

definition assistant_step :: "string \<Rightarrow> bool \<Rightarrow> string \<Rightarrow> ClaudeLogEntry \<Rightarrow> turn_state \<Rightarrow>
    turn_state" where
  "assistant_step sid il now entry st =
     (if entry_type entry = ''assistant'' \<and> content_truthy (message entry)
         \<and> is_array (message entry) then
        (let chs = extractAllFileChanges entry
                     (or_else (map_option turn_id (currentTurn st)) (sid @ ''-turn-0'')) il;
             assistantText = extractAssistantText entry;
             st1 = (if currentTurn st = None \<and> (length chs > 0 \<or> assistantText \<noteq> []) then
                      st\<lparr>currentTurn := Some (new_turn sid (turnCounter st + 1)
                                             (or_else (timestamp entry) now) ''No message'' il),
                         turnCounter := turnCounter st + 1\<rparr>
                    else st)
         in (case currentTurn st1 of
               Some t \<Rightarrow> st1\<lparr>currentTurn := Some (add_to_turn chs assistantText t)\<rparr>
             | None \<Rightarrow> st1))
      else st)"

definition turn_step :: "string \<Rightarrow> bool \<Rightarrow> string \<Rightarrow> turn_state \<Rightarrow> ClaudeLogEntry \<Rightarrow>
    turn_state" where
  "turn_step sid il now st entry = assistant_step sid il now entry (user_step sid il now entry st)"

text \<open>
  The loop over the parsed entries. No \<^verbatim>\<open>try\<close> surrounds it: at an entry that is
  \<^verbatim>\<open>null\<close> the test \<^verbatim>\<open>entry.type === 'user'\<close> throws a TypeError, which ends the loop
  and the call.
\<close>

fun turn_loop :: "string \<Rightarrow> bool \<Rightarrow> string \<Rightarrow> turn_state \<Rightarrow> parsed_value list \<Rightarrow>
    parser_error + turn_state" where
  "turn_loop sid il now st [] = Inr st"
| "turn_loop sid il now st (JsonNull # entries) = Inl TypeError"
| "turn_loop sid il now st (Entry entry # entries) =
     turn_loop sid il now (turn_step sid il now st entry) entries"

definition initial_state :: turn_state where
  "initial_state = \<lparr>st_turns = [], currentTurn = None, turnCounter = 0\<rparr>"

text \<open>
  The first loop of \<^verbatim>\<open>getSessionWithTurns\<close>: its \<^verbatim>\<open>try\<close> holds \<^verbatim>\<open>JSON.parse\<close> and the
  push, so every value that parses is kept, \<^verbatim>\<open>null\<close> included.
\<close>

fun parse_entries :: "log_line list \<Rightarrow> parsed_value list" where
  "parse_entries [] = []"
| "parse_entries (None # ls) = parse_entries ls"
| "parse_entries (Some v # ls) = v # parse_entries ls"

text \<open>
  The turn list built from the lines of a session, with the last turn closed, or the
  error that the loop throws.
\<close>

definition build_turns :: "string \<Rightarrow> bool \<Rightarrow> string \<Rightarrow> log_line list \<Rightarrow>
    parser_error + ConversationTurn list" where
  "build_turns sid il now ls =
     (case turn_loop sid il now initial_state (parse_entries ls) of
        Inl err \<Rightarrow> Inl err
      | Inr st \<Rightarrow> Inr (push_turn (currentTurn st) (st_turns st)))"

section \<open>Session files and metadata (parser.ts, extractSessionMetadata)\<close>

text \<open>
  A session file that can be read has a modification time and lines. The project's log
  directory is absent, or not a directory, or lists file names; a listed file on which
  \<^verbatim>\<open>stat\<close> or \<^verbatim>\<open>readFile\<close> throws is \<open>None\<close>.
\<close>

record session_file =
  file_mtime :: int
  file_lines :: "log_line list"

datatype project_dir =
    Missing
  | NotADirectory
  | Directory "(string \<times> session_file option) list"

record meta_acc =
  firstUserMessage :: string
  acc_timestamp :: string
  acc_fileCount :: nat

text \<open>The inner loop that looks for the first text block of a user entry.\<close>

fun first_text_100 :: "string \<Rightarrow> content_block list \<Rightarrow> string" where
  "first_text_100 cur [] = cur"
| "first_text_100 cur (b # bs) =
     (if block_type b = ''text'' \<and> truthy (block_text b) then take 100 (the (block_text b))
      else first_text_100 cur bs)"

text \<open>The inner loop that counts file changes in an assistant entry.\<close>

fun count_loop :: "nat \<Rightarrow> content_block list \<Rightarrow> nat" where
  "count_loop n [] = n"
| "count_loop n (b # bs) =
     (if block_type b = ''tool_use'' \<and>
         (name b = Some ''Write'' \<or> name b = Some ''Edit'' \<or> name b = Some ''MultiEdit'')
      then count_loop (n + 1) bs
      else count_loop n bs)"

definition metadata_step :: "meta_acc \<Rightarrow> ClaudeLogEntry \<Rightarrow> meta_acc" where
  "metadata_step acc entry =
     (let ts = (if acc_timestamp acc = [] \<and> truthy (timestamp entry)
                then the (timestamp entry) else acc_timestamp acc);
          msg = (if entry_type entry = ''user'' \<and> firstUserMessage acc = ''No message''
                    \<and> content_truthy (message entry) then
                   (case message entry of
                      Some (StringContent s) \<Rightarrow> take 100 s
                    | Some (ArrayContent bs) \<Rightarrow> first_text_100 (firstUserMessage acc) bs
                    | None \<Rightarrow> firstUserMessage acc)
                 else firstUserMessage acc);
          n = (if entry_type entry = ''assistant'' \<and> content_truthy (message entry) then
                 (case message entry of
                    Some (ArrayContent bs) \<Rightarrow> count_loop (acc_fileCount acc) bs
                  | _ \<Rightarrow> acc_fileCount acc)
               else acc_fileCount acc)
      in \<lparr>firstUserMessage = msg, acc_timestamp = ts, acc_fileCount = n\<rparr>)"

text \<open>
  The loop over the lines; its \<^verbatim>\<open>try\<close> holds the whole body. At a line that parses
  to \<^verbatim>\<open>null\<close> the first property read (\<^verbatim>\<open>entry.timestamp\<close> or \<^verbatim>\<open>entry.type\<close>) throws
  before anything is assigned, and the \<^verbatim>\<open>catch\<close> continues with the next line.
\<close>

fun metadata_loop :: "meta_acc \<Rightarrow> log_line list \<Rightarrow> meta_acc" where
  "metadata_loop acc [] = acc"
| "metadata_loop acc (None # ls) = metadata_loop acc ls"
| "metadata_loop acc (Some JsonNull # ls) = metadata_loop acc ls"
| "metadata_loop acc (Some (Entry entry) # ls) = metadata_loop (metadata_step acc entry) ls"

definition initial_acc :: meta_acc where
  "initial_acc = \<lparr>firstUserMessage = ''No message'', acc_timestamp = [], acc_fileCount = 0\<rparr>"

text \<open>
  \<^verbatim>\<open>extractSessionMetadata\<close> of the file \<open>file\<close> listed in directory \<open>dir\<close>; the result is
  \<open>None\<close> (the source's \<^verbatim>\<open>null\<close>) when reading the file throws.
\<close>

definition extractSessionMetadata :: "string \<Rightarrow> string \<Rightarrow> string \<times> session_file option \<Rightarrow>
    SessionMetadata option" where
  "extractSessionMetadata now dir entry =
     (case entry of
        (file, None) \<Rightarrow> None
      | (file, Some f) \<Rightarrow>
          (let acc = metadata_loop initial_acc (file_lines f)
           in Some \<lparr>sessionId = replace_first ''.jsonl'' [] file,
                    sessionFile = dir @ ''/'' @ file,
                    sm_timestamp = or_else (Some (acc_timestamp acc)) now,
                    mtime = file_mtime f,
                    sm_userMessage = firstUserMessage acc,
                    fileCount = acc_fileCount acc,
                    isLatest = False\<rparr>))"

section \<open>Session listing (parser.ts, getAllSessionMetadata)\<close>

text \<open>The loop that keeps the metadata of the files that could be read.\<close>

fun metadata_of_files :: "string \<Rightarrow> string \<Rightarrow> (string \<times> session_file option) list \<Rightarrow>
    SessionMetadata list" where
  "metadata_of_files now dir [] = []"
| "metadata_of_files now dir (e # es) =
     (case extractSessionMetadata now dir e of
        Some metadata \<Rightarrow> metadata # metadata_of_files now dir es
      | None \<Rightarrow> metadata_of_files now dir es)"

text \<open>
  \<^verbatim>\<open>sessions.sort((a, b) => b.mtime - a.mtime)\<close>: a stable sort, newest first.
\<close>

definition sort_newest_first :: "SessionMetadata list \<Rightarrow> SessionMetadata list" where
  "sort_newest_first sessions = sort_key (\<lambda>s. - mtime s) sessions"

text \<open>\<^verbatim>\<open>if (sessions.length > 0) sessions[0].isLatest = true\<close>\<close>

fun mark_latest :: "SessionMetadata list \<Rightarrow> SessionMetadata list" where
  "mark_latest [] = []"
| "mark_latest (s # ss) = s\<lparr>isLatest := True\<rparr> # ss"

definition getAllSessionMetadata :: "string \<Rightarrow> string \<Rightarrow> project_dir \<Rightarrow> SessionMetadata list" where
  "getAllSessionMetadata now dir pd =
     (case pd of
        Missing \<Rightarrow> []
      | NotADirectory \<Rightarrow> []
      | Directory files \<Rightarrow>
          (let jsonlFiles = filter (\<lambda>e. endsWith (fst e) ''.jsonl'') files
           in if length jsonlFiles = 0 then []
              else mark_latest (sort_newest_first (metadata_of_files now dir jsonlFiles))))"

section \<open>Session contents (parser.ts, getSessionChanges and getSessionWithTurns)\<close>

text \<open>
  \<^verbatim>\<open>access\<close> followed by \<^verbatim>\<open>readFile\<close> on the session's file: a file that is not listed
  gives the error of the source, a listed file that cannot be read makes the read throw.
\<close>

definition open_session :: "project_dir \<Rightarrow> string \<Rightarrow> parser_error + session_file" where
  "open_session pd sid =
     (case pd of
        Directory files \<Rightarrow>
          (case map_of files (sid @ ''.jsonl'') of
             None \<Rightarrow> Inl (SessionFileNotFound sid)
           | Some None \<Rightarrow> Inl ReadFailed
           | Some (Some f) \<Rightarrow> Inr f)
      | _ \<Rightarrow> Inl (SessionFileNotFound sid))"

fun getFirstUserMessage :: "log_line list \<Rightarrow> string" where
  "getFirstUserMessage [] = ''No message''"
| "getFirstUserMessage (None # ls) = getFirstUserMessage ls"
| "getFirstUserMessage (Some JsonNull # ls) = getFirstUserMessage ls"
| "getFirstUserMessage (Some (Entry entry) # ls) =
     (if entry_type entry = ''user'' \<and> content_truthy (message entry) then
        (case message entry of
           Some (StringContent s) \<Rightarrow> (if trim s \<noteq> [] then s else getFirstUserMessage ls)
         | Some (ArrayContent bs) \<Rightarrow>
             (case first_text bs of Some t \<Rightarrow> t | None \<Rightarrow> getFirstUserMessage ls)
         | None \<Rightarrow> getFirstUserMessage ls)
      else getFirstUserMessage ls)"

text \<open>\<^verbatim>\<open>sessions.length > 0 && sessions[0].sessionId === sessionId\<close>\<close>

definition is_latest_session :: "SessionMetadata list \<Rightarrow> string \<Rightarrow> bool" where
  "is_latest_session sessions sid =
     (case sessions of [] \<Rightarrow> False | s # ss \<Rightarrow> sessionId s = sid)"

definition getSessionChanges :: "string \<Rightarrow> string \<Rightarrow> project_dir \<Rightarrow> string \<Rightarrow>
    parser_error + FileChange list" where
  "getSessionChanges now dir pd sid =
     (case open_session pd sid of
        Inl err \<Rightarrow> Inl err
      | Inr f \<Rightarrow>
          (let chs = parseLogFile (file_lines f);
               msg = getFirstUserMessage (file_lines f);
               il = is_latest_session (getAllSessionMetadata now dir pd) sid
           in Inr (map (\<lambda>change. change\<lparr>fc_sessionId := Some sid,
                                          fc_sessionFile := Some (dir @ ''/'' @ sid @ ''.jsonl''),
                                          fc_userMessage := Some msg,
                                          isLatestSession := Some il\<rparr>) chs)))"

text \<open>\<^verbatim>\<open>entries.find(e => e.timestamp)?.timestamp || new Date().toISOString()\<close>\<close>

fun first_timestamp :: "parsed_value list \<Rightarrow> parser_error + string option" where
  "first_timestamp [] = Inr None"
| "first_timestamp (JsonNull # es) = Inl TypeError"
| "first_timestamp (Entry e # es) =
     (if truthy (timestamp e) then Inr (timestamp e) else first_timestamp es)"

text \<open>
  \<^verbatim>\<open>getSessionWithTurns\<close>: the file is opened, the latest session is determined, the
  lines are parsed and the turns built; an error thrown on the way rejects the call.
\<close>

definition getSessionWithTurns :: "string \<Rightarrow> string \<Rightarrow> project_dir \<Rightarrow> string \<Rightarrow>
    parser_error + SessionWithTurns" where
  "getSessionWithTurns now dir pd sid =
     (case open_session pd sid of
        Inl err \<Rightarrow> Inl err
      | Inr f \<Rightarrow>
          (let il = is_latest_session (getAllSessionMetadata now dir pd) sid
           in case build_turns sid il now (file_lines f) of
                Inl err \<Rightarrow> Inl err
              | Inr ts \<Rightarrow>
                  (case first_timestamp (parse_entries (file_lines f)) of
                     Inl err \<Rightarrow> Inl err
                   | Inr firstTimestamp \<Rightarrow>
                       Inr \<lparr>swt_sessionId = sid,
                            swt_sessionFile = dir @ ''/'' @ sid @ ''.jsonl'',
                            swt_timestamp = or_else firstTimestamp now,
                            swt_mtime = file_mtime f,
                            swt_isLatest = il,
                            turns = ts\<rparr>)))"

section \<open>Reverting a change (RevertServer.handleRevert)\<close>

text \<open>
  The fields of a \<^verbatim>\<open>ParsedChange\<close> (types.ts) that a revert reads; \<open>oldContent\<close> is the
  captured "before" snapshot.
\<close>

record ParsedChange =
  pc_id :: string
  pc_type :: change_type
  pc_filePath :: string
  oldContent :: "string option"
  pc_newContent :: "string option"
  canRevert :: bool

text \<open>The files on disk and the persisted ledger, from change id to the time of the revert.\<close>

record tracker_state =
  disk :: "string \<rightharpoonup> string"
  ledger :: "string \<rightharpoonup> string"

text \<open>The file operation, if any, that fails with a permission or disk error.\<close>

datatype io_fault = NoFault | WriteFails | RenameFails | DeleteFails

datatype revert_error = RevertRejected | IoFailure

text \<open>
  Modelled from the spec: \<^verbatim>\<open>ChangeTracker.revertChange\<close> of change-tracker.ts, which is
  not among the source files. Section 4.5 of the specification: (1) reject if the change
  cannot be reverted, with no action on the file system; (2) if the "before" snapshot is
  empty, delete the target file, an absent file being a success; (3) otherwise overwrite
  the target with the snapshot by writing a sibling temporary path and renaming it over
  the target; (4) on success upsert the ledger entry of the change id with the current
  time; (5) a failure of the file operation produces no ledger entry. The result is the
  state after the call and the error thrown, if any.
\<close>

definition revertChange :: "io_fault \<Rightarrow> (string \<Rightarrow> string) \<Rightarrow> string \<Rightarrow> ParsedChange \<Rightarrow>
    tracker_state \<Rightarrow> tracker_state \<times> revert_error option" where
  "revertChange fault tmp now change st =
     (if \<not> canRevert change then (st, Some RevertRejected)
      else if \<not> truthy (oldContent change) then
        (case disk st (pc_filePath change) of
           None \<Rightarrow> (st\<lparr>ledger := (ledger st)(pc_id change \<mapsto> now)\<rparr>, None)
         | Some old \<Rightarrow>
             (if fault = DeleteFails then (st, Some IoFailure)
              else (st\<lparr>disk := (disk st)(pc_filePath change := None),
                       ledger := (ledger st)(pc_id change \<mapsto> now)\<rparr>, None)))
      else if fault = WriteFails then (st, Some IoFailure)
      else if fault = RenameFails then
        (st\<lparr>disk := (disk st)(tmp (pc_filePath change) \<mapsto> the (oldContent change))\<rparr>,
         Some IoFailure)
      else
        (st\<lparr>disk := (disk st)(pc_filePath change \<mapsto> the (oldContent change)),
            ledger := (ledger st)(pc_id change \<mapsto> now)\<rparr>, None))"

text \<open>The server's list of processed changes and its tracker; the message sent back.\<close>

record server_state =
  server_changes :: "ParsedChange list"
  tracker :: tracker_state

datatype ws_message = RevertSuccess string | RevertError string

text \<open>
  \<^verbatim>\<open>handleRevert\<close>: the change is looked up by id, \<^verbatim>\<open>revertChange\<close> is awaited, and every
  error thrown is caught and sent as a \<^verbatim>\<open>revertError\<close> message whose text is the error's
  message, or a default text when it has none. \<open>message_of\<close> is the message of the error
  that the tracker throws.
\<close>

definition handleRevert :: "io_fault \<Rightarrow> (string \<Rightarrow> string) \<Rightarrow> (revert_error \<Rightarrow> string option) \<Rightarrow>
    string \<Rightarrow> string \<Rightarrow> server_state \<Rightarrow> server_state \<times> ws_message" where
  "handleRevert fault tmp message_of now changeId srv =
     (case find (\<lambda>c. pc_id c = changeId) (server_changes srv) of
        None \<Rightarrow> (srv, RevertError (or_else (Some ''Change not found'') ''Failed to revert change''))
      | Some change \<Rightarrow>
          (case revertChange fault tmp now change (tracker srv) of
             (st, None) \<Rightarrow> (srv\<lparr>tracker := st\<rparr>, RevertSuccess changeId)
           | (st, Some err) \<Rightarrow>
               (srv\<lparr>tracker := st\<rparr>,
                RevertError (or_else (message_of err) ''Failed to revert change''))))"

text \<open>The file operation that the revert of a change needs fails.\<close>

definition io_fails :: "io_fault \<Rightarrow> ParsedChange \<Rightarrow> tracker_state \<Rightarrow> bool" where
  "io_fails fault change st \<longleftrightarrow>
     (if truthy (oldContent change) then fault = WriteFails \<or> fault = RenameFails
      else fault = DeleteFails \<and> disk st (pc_filePath change) \<noteq> None)"

section \<open>The statements of the specification\<close>

text \<open>A text block whose text has a character that is not white space.\<close>

definition non_blank_text :: "content_block \<Rightarrow> bool" where
  "non_blank_text b \<longleftrightarrow>
     block_type b = ''text'' \<and>
     (case block_text b of None \<Rightarrow> False | Some t \<Rightarrow> list_ex (\<lambda>c. \<not> isWhiteSpace c) t)"

text \<open>
  The specification's tool-result echo: array content with no text block and at least
  one \<^verbatim>\<open>tool_result\<close> block.
\<close>

definition echo_as_specified :: "ClaudeLogEntry \<Rightarrow> bool" where
  "echo_as_specified entry =
     (case message entry of
        Some (ArrayContent bs) \<Rightarrow>
          \<not> list_ex (\<lambda>b. block_type b = ''text'') bs \<and>
          list_ex (\<lambda>b. block_type b = ''tool_result'') bs
      | _ \<Rightarrow> False)"

text \<open>The same with "no text block" read as "no text block with text that is not blank".\<close>

definition echo_amended :: "ClaudeLogEntry \<Rightarrow> bool" where
  "echo_amended entry =
     (case message entry of
        Some (ArrayContent bs) \<Rightarrow>
          \<not> list_ex non_blank_text bs \<and>
          list_ex (\<lambda>b. block_type b = ''tool_result'') bs
      | _ \<Rightarrow> False)"

text \<open>
  A session file, and a project directory, without the lines on which \<^verbatim>\<open>JSON.parse\<close>
  throws.
\<close>

definition without_malformed :: "log_line list \<Rightarrow> log_line list" where
  "without_malformed ls = filter (\<lambda>l. l \<noteq> None) ls"

definition clean_file :: "session_file \<Rightarrow> session_file" where
  "clean_file f = f\<lparr>file_lines := without_malformed (file_lines f)\<rparr>"

definition clean_dir :: "project_dir \<Rightarrow> project_dir" where
  "clean_dir pd =
     (case pd of
        Directory files \<Rightarrow> Directory (map (\<lambda>e. (fst e, map_option clean_file (snd e))) files)
      | Missing \<Rightarrow> Missing
      | NotADirectory \<Rightarrow> NotADirectory)"

text \<open>
  The number of \<^verbatim>\<open>tool_use\<close> blocks named Write, Edit or MultiEdit in the lines of a
  file: over the lines that parse to an assistant entry with array content.
\<close>

definition is_file_mutating :: "content_block \<Rightarrow> bool" where
  "is_file_mutating b \<longleftrightarrow>
     block_type b = ''tool_use'' \<and> name b \<in> {Some ''Write'', Some ''Edit'', Some ''MultiEdit''}"

definition mutating_blocks :: "log_line \<Rightarrow> content_block list" where
  "mutating_blocks l =
     (case l of
        Some (Entry entry) \<Rightarrow>
          (if entry_type entry = ''assistant'' then
             (case message entry of
                Some (ArrayContent bs) \<Rightarrow> filter is_file_mutating bs
              | _ \<Rightarrow> [])
           else [])
      | _ \<Rightarrow> [])"

text \<open>The entries among the lines of a file, and the lines that are entries.\<close>

fun line_entries :: "log_line list \<Rightarrow> ClaudeLogEntry list" where
  "line_entries [] = []"
| "line_entries (Some (Entry entry) # ls) = entry # line_entries ls"
| "line_entries (l # ls) = line_entries ls"

fun is_entry :: "log_line \<Rightarrow> bool" where
  "is_entry (Some (Entry entry)) = True"
| "is_entry l = False"

text \<open>
  The turns of a list of entries: the state after the steps of the turn loop, with the
  last turn closed.
\<close>

definition turns_of :: "string \<Rightarrow> bool \<Rightarrow> string \<Rightarrow> ClaudeLogEntry list \<Rightarrow>
    ConversationTurn list" where
  "turns_of sid il now entries =
     (let st = foldl (turn_step sid il now) initial_state entries
      in push_turn (currentTurn st) (st_turns st))"

definition count_mutating_blocks :: "log_line list \<Rightarrow> nat" where
  "count_mutating_blocks ls = sum_list (map (\<lambda>l. length (mutating_blocks l)) ls)"

text \<open>
  The specification's latest session: exactly one session is flagged, and its
  modification time is strictly greater than that of every other session.
\<close>

definition latest_as_specified :: "SessionMetadata list \<Rightarrow> bool" where
  "latest_as_specified ss \<longleftrightarrow>
     length (filter isLatest ss) = 1 \<and>
     list_all (\<lambda>s. isLatest s \<longrightarrow> list_all (\<lambda>r. r = s \<or> mtime r < mtime s) ss) ss"

text \<open>
  What a change carries besides its id: kind, target path, new content and replacement
  operations.
\<close>

type_synonym change_core = "change_type \<times> string option \<times> string option \<times> edit_op list option"

definition change_core :: "FileChange \<Rightarrow> change_core" where
  "change_core c = (fc_type c, filePath c, newContent c, changes c)"

text \<open>
  The specification's change extractor on a file-mutating invocation: the full-file
  replace tool gives a write with the new content, the single replacement tool an edit
  with one operation, the multi-replacement tool an edit with the operations as given.
\<close>

definition change_of_block :: "content_block \<Rightarrow> change_core" where
  "change_of_block b =
     (if name b = Some ''Write'' then
        (Write, input_prop b file_path, input_prop b input_content, None)
      else if name b = Some ''Edit'' then
        (Edit, input_prop b file_path, None, Some (single_edit b))
      else (Edit, input_prop b file_path, None, input_prop b edits))"

definition has_path :: "content_block \<Rightarrow> bool" where
  "has_path b \<longleftrightarrow> truthy (input_prop b file_path)"

text \<open>One change per file-mutating invocation of a line, in content order.\<close>

definition changes_as_specified :: "log_line \<Rightarrow> change_core list" where
  "changes_as_specified l = map change_of_block (mutating_blocks l)"

text \<open>The same over the invocations that carry a non-empty file path.\<close>

definition changes_with_path :: "log_line \<Rightarrow> change_core list" where
  "changes_with_path l = map change_of_block (filter has_path (mutating_blocks l))"

text \<open>All changes of a state of the turn loop: of the emitted turns, then of the open turn.\<close>

definition all_changes :: "turn_state \<Rightarrow> FileChange list" where
  "all_changes st =
     concat (map fileChanges (st_turns st)) @
     (case currentTurn st of Some t \<Rightarrow> fileChanges t | None \<Rightarrow> [])"

text \<open>
  An entry that changes the state of the turn loop while no turn is open: a genuine
  user message, or an assistant entry with array content that has a change with a
  path or some text.
\<close>

definition opens_turn :: "ClaudeLogEntry \<Rightarrow> bool" where
  "opens_turn entry \<longleftrightarrow>
     (entry_type entry = ''user'' \<and> \<not> isToolResultEntry entry) \<or>
     (entry_type entry = ''assistant'' \<and> is_array (message entry) \<and>
        (changes_with_path (Some (Entry entry)) \<noteq> [] \<or> extractAssistantText entry \<noteq> []))"

text \<open>
  A state of the turn loop whose first turn, emitted or still open, has the id \<open>tid\<close>
  and starts with the changes \<open>chs\<close>.
\<close>

definition first_turn_holds :: "string \<Rightarrow> FileChange list \<Rightarrow> turn_state \<Rightarrow> bool" where
  "first_turn_holds tid chs st =
     (case st_turns st of
        [] \<Rightarrow> (case currentTurn st of
                 Some t \<Rightarrow> turn_id t = tid \<and> prefix chs (fileChanges t)
               | None \<Rightarrow> False)
      | t # ts \<Rightarrow> turn_id t = tid \<and> prefix chs (fileChanges t))"

text \<open>
  The turn that the claim describes: its id ends in turn-1 and the ids of its changes
  start with the session id and turn-0.
\<close>

definition turn_one_with_turn_zero_ids :: "string \<Rightarrow> ConversationTurn \<Rightarrow> bool" where
  "turn_one_with_turn_zero_ids sid t \<longleftrightarrow>
     turn_id t = sid @ ''-turn-1'' \<and>
     list_all (\<lambda>c. prefix (sid @ ''-turn-0'') (fc_id c)) (fileChanges t)"

text \<open>
  The id that \<^verbatim>\<open>extractAllFileChanges\<close> gives a change: turn id, timestamp, tool kind
  and counter, joined by dashes.
\<close>

definition change_id :: "string \<Rightarrow> string \<Rightarrow> string \<Rightarrow> nat \<Rightarrow> string" where
  "change_id turnId ts kind i = turnId @ ''-'' @ ts @ ''-'' @ kind @ ''-'' @ string_of_nat i"

definition tool_kinds :: "string set" where
  "tool_kinds = {''write'', ''edit'', ''multiedit''}"

text \<open>The number of \<^verbatim>\<open>tool_use\<close> blocks of an entry: the last value of its counter.\<close>

definition tool_use_count :: "ClaudeLogEntry \<Rightarrow> nat" where
  "tool_use_count entry =
     (case message entry of
        Some (ArrayContent bs) \<Rightarrow> length (filter (\<lambda>b. block_type b = ''tool_use'') bs)
      | _ \<Rightarrow> 0)"

text \<open>The timestamps, as rendered in ids, of the assistant entries of a session.\<close>

definition assistant_timestamps :: "log_line list \<Rightarrow> string list" where
  "assistant_timestamps ls =
     map (\<lambda>e. template (timestamp e))
       (filter (\<lambda>e. entry_type e = ''assistant'') (line_entries ls))"

text \<open>
  The invariant of the turn loop behind the uniqueness of ids: the ids of the changes
  collected so far are distinct, each is built from a turn id of the session and a
  timestamp already seen, and the open turn has a turn id of the session.
\<close>

definition ids_wellformed :: "string \<Rightarrow> string set \<Rightarrow> turn_state \<Rightarrow> bool" where
  "ids_wellformed sid seen st \<longleftrightarrow>
     distinct (map fc_id (all_changes st)) \<and>
     (\<forall>c \<in> set (all_changes st). \<exists>k ts kind n. ts \<in> seen \<and> kind \<in> tool_kinds \<and>
        fc_id c = change_id (sid @ ''-turn-'' @ string_of_nat k) ts kind n) \<and>
     (\<forall>t. currentTurn st = Some t \<longrightarrow> (\<exists>k. turn_id t = sid @ ''-turn-'' @ string_of_nat k))"

section \<open>Sample log entries\<close>

definition text_block :: "string \<Rightarrow> content_block" where
  "text_block t = \<lparr>block_type = ''text'', name = None, input = None, block_text = Some t\<rparr>"

definition tool_result_block :: content_block where
  "tool_result_block =
     \<lparr>block_type = ''tool_result'', name = None, input = None, block_text = None\<rparr>"

definition user_entry :: "message_content \<Rightarrow> ClaudeLogEntry" where
  "user_entry c = \<lparr>entry_type = ''user'', timestamp = Some ''t0'', message = Some c\<rparr>"

definition tool_use_block :: "string \<Rightarrow> tool_input option \<Rightarrow> content_block" where
  "tool_use_block n i = \<lparr>block_type = ''tool_use'', name = Some n, input = i, block_text = None\<rparr>"

definition write_input :: "string option \<Rightarrow> string \<Rightarrow> tool_input" where
  "write_input p c =
     \<lparr>file_path = p, input_content = Some c, old_string = None, new_string = None,
      replace_all = None, edits = None\<rparr>"

definition assistant_entry :: "string option \<Rightarrow> content_block list \<Rightarrow> ClaudeLogEntry" where
  "assistant_entry ts bs =
     \<lparr>entry_type = ''assistant'', timestamp = ts, message = Some (ArrayContent bs)\<rparr>"

text \<open>
  A session: a request answered by a Write with a path and an Edit without input, a
  malformed line, and a second request answered by text only.
\<close>

definition sample_lines :: "log_line list" where
  "sample_lines =
     [Some (Entry (user_entry (StringContent ''add a file''))),
      Some (Entry (assistant_entry (Some ''t1'')
        [text_block ''ok'',
         tool_use_block ''Write'' (Some (write_input (Some ''a.txt'') ''hello'')),
         tool_use_block ''Edit'' None])),
      None,
      Some (Entry (user_entry (StringContent ''thanks''))),
      Some (Entry (assistant_entry (Some ''t2'') [text_block ''bye'']))]"

definition sample_file :: session_file where
  "sample_file = \<lparr>file_mtime = 200, file_lines = sample_lines\<rparr>"

definition sample_files :: "(string \<times> session_file option) list" where
  "sample_files =
     [(''s0.jsonl'', Some \<lparr>file_mtime = 100, file_lines = [None]\<rparr>),
      (''s1.jsonl'', Some sample_file),
      (''notes.txt'', None)]"

definition sample_dir :: project_dir where
  "sample_dir = Directory sample_files"

text \<open>The sample session without its malformed line.\<close>

definition sample_lines_clean :: "log_line list" where
  "sample_lines_clean =
     [Some (Entry (user_entry (StringContent ''add a file''))),
      Some (Entry (assistant_entry (Some ''t1'')
        [text_block ''ok'',
         tool_use_block ''Write'' (Some (write_input (Some ''a.txt'') ''hello'')),
         tool_use_block ''Edit'' None])),
      Some (Entry (user_entry (StringContent ''thanks''))),
      Some (Entry (assistant_entry (Some ''t2'') [text_block ''bye'']))]"

text \<open>The same session with a line that holds \<^verbatim>\<open>null\<close> in the place of the malformed one.\<close>

definition null_line_lines :: "log_line list" where
  "null_line_lines =
     [Some (Entry (user_entry (StringContent ''add a file''))),
      Some (Entry (assistant_entry (Some ''t1'')
        [text_block ''ok'',
         tool_use_block ''Write'' (Some (write_input (Some ''a.txt'') ''hello'')),
         tool_use_block ''Edit'' None])),
      Some JsonNull,
      Some (Entry (user_entry (StringContent ''thanks''))),
      Some (Entry (assistant_entry (Some ''t2'') [text_block ''bye'']))]"

definition null_line_dir :: project_dir where
  "null_line_dir =
     Directory [(''s1.jsonl'', Some \<lparr>file_mtime = 200, file_lines = null_line_lines\<rparr>)]"

definition clean_line_dir :: project_dir where
  "clean_line_dir =
     Directory [(''s1.jsonl'', Some \<lparr>file_mtime = 200, file_lines = sample_lines_clean\<rparr>)]"

text \<open>Two sessions modified at the same time, and a directory whose only session file cannot be read.\<close>

definition tie_dir :: project_dir where
  "tie_dir =
     Directory
       [(''a.jsonl'', Some \<lparr>file_mtime = 100, file_lines = [None]\<rparr>),
        (''b.jsonl'', Some \<lparr>file_mtime = 100, file_lines = [None]\<rparr>)]"

definition unreadable_dir :: project_dir where
  "unreadable_dir = Directory [(''a.jsonl'', None)]"

text \<open>An assistant entry with two Write invocations, and one whose Write has no input.\<close>

definition two_writes_entry :: ClaudeLogEntry where
  "two_writes_entry =
     assistant_entry (Some ''t1'')
       [tool_use_block ''Write'' (Some (write_input (Some ''a.txt'') ''hello'')),
        tool_use_block ''Write'' (Some (write_input (Some ''b.txt'') ''world''))]"

definition pathless_entry :: ClaudeLogEntry where
  "pathless_entry = assistant_entry (Some ''t1'') [tool_use_block ''Write'' None]"

text \<open>
  A session with no user message: assistant text, then a Write in a later entry.
\<close>

definition late_write_lines :: "log_line list" where
  "late_write_lines =
     [Some (Entry (assistant_entry (Some ''t0'') [text_block ''hi''])),
      Some (Entry (assistant_entry (Some ''t1'')
        [tool_use_block ''Write'' (Some (write_input (Some ''a.txt'') ''hello''))]))]"

text \<open>A session that starts with a tool-result echo and a Write, before any request.\<close>

definition early_write_entry :: ClaudeLogEntry where
  "early_write_entry =
     assistant_entry (Some ''t1'')
       [tool_use_block ''Write'' (Some (write_input (Some ''a.txt'') ''hello''))]"

definition early_write_lines :: "log_line list" where
  "early_write_lines =
     [Some (Entry (user_entry (ArrayContent [tool_result_block]))),
      Some (Entry early_write_entry),
      Some (Entry (user_entry (StringContent ''thanks'')))]"

text \<open>A request answered by two assistant entries that carry the same timestamp.\<close>

definition same_timestamp_lines :: "log_line list" where
  "same_timestamp_lines =
     [Some (Entry (user_entry (StringContent ''add two files''))),
      Some (Entry (assistant_entry (Some ''t1'')
        [tool_use_block ''Write'' (Some (write_input (Some ''a.txt'') ''hello''))])),
      Some (Entry (assistant_entry (Some ''t1'')
        [tool_use_block ''Write'' (Some (write_input (Some ''b.txt'') ''world''))]))]"

text \<open>The same request answered by two assistant entries with different timestamps.\<close>

definition distinct_timestamp_lines :: "log_line list" where
  "distinct_timestamp_lines =
     [Some (Entry (user_entry (StringContent ''add two files''))),
      Some (Entry (assistant_entry (Some ''t1'')
        [tool_use_block ''Write'' (Some (write_input (Some ''a.txt'') ''hello''))])),
      Some (Entry (assistant_entry (Some ''t2'')
        [tool_use_block ''Write'' (Some (write_input (Some ''b.txt'') ''world''))]))]"

text \<open>A server that holds one revertable overwrite of a file on disk.\<close>

definition sample_change :: ParsedChange where
  "sample_change =
     \<lparr>pc_id = ''c1'', pc_type = Write, pc_filePath = ''a.txt'', oldContent = Some ''old'',
      pc_newContent = Some ''new'', canRevert = True\<rparr>"

definition sample_server :: server_state where
  "sample_server =
     \<lparr>server_changes = [sample_change],
      tracker = \<lparr>disk = [''a.txt'' \<mapsto> ''new''], ledger = Map.empty\<rparr>\<rparr>"

section \<open>Properties\<close>

lemma all_dropWhile: "(\<forall>c \<in> set (dropWhile P s). P c) \<longleftrightarrow> (\<forall>c \<in> set s. P c)"
proof
  assume h: "\<forall>c \<in> set (dropWhile P s). P c"
  have "set s = set (takeWhile P s) \<union> set (dropWhile P s)"
    by (metis set_append takeWhile_dropWhile_id)
  with h show "\<forall>c \<in> set s. P c" by (auto dest: set_takeWhileD)
next
  assume "\<forall>c \<in> set s. P c"
  then show "\<forall>c \<in> set (dropWhile P s). P c" by (auto dest: set_dropWhileD)
qed

lemma trim_empty_iff: "trim s = [] \<longleftrightarrow> (\<forall>c \<in> set s. isWhiteSpace c)"
  by (simp add: trim_def dropWhile_eq_Nil_conv all_dropWhile)

lemma text_loop_iff: "text_loop bs \<longleftrightarrow> (\<exists>b \<in> set bs. has_text b)"
  by (induction bs) auto

lemma tool_result_loop_iff:
  "tool_result_loop bs \<longleftrightarrow> (\<exists>b \<in> set bs. block_type b = ''tool_result'')"
  by (induction bs) auto

subsection \<open>Tool-result echoes\<close>

lemma has_text_iff: "has_text b \<longleftrightarrow> non_blank_text b"
  by (cases "block_text b")
     (auto simp: has_text_def non_blank_text_def trim_empty_iff list_ex_iff)

lemma isToolResultEntry_array:
  "message entry = Some (ArrayContent bs) \<Longrightarrow>
   isToolResultEntry entry \<longleftrightarrow>
     \<not> list_ex non_blank_text bs \<and> list_ex (\<lambda>b. block_type b = ''tool_result'') bs"
  by (simp add: isToolResultEntry_def text_loop_iff tool_result_loop_iff list_ex_iff has_text_iff)

text \<open>
  Claim C4, as the code has it: a user entry is a tool-result echo if and only if its
  content is an array with no text block whose text is other than white space and with
  at least one \<^verbatim>\<open>tool_result\<close> block. String content, and array content with a text
  block that is not blank, is a genuine message.
\<close>

theorem isToolResultEntry_classification:
  "(isToolResultEntry entry \<longleftrightarrow> echo_amended entry) \<and>
   (\<forall>s. message entry = Some (StringContent s) \<longrightarrow> \<not> isToolResultEntry entry) \<and>
   (\<forall>bs. message entry = Some (ArrayContent bs) \<and> list_ex non_blank_text bs
         \<longrightarrow> \<not> isToolResultEntry entry)"
proof (cases "message entry")
  case None
  then show ?thesis by (simp add: isToolResultEntry_def echo_amended_def)
next
  case (Some c)
  show ?thesis
  proof (cases c)
    case (StringContent s)
    with Some show ?thesis by (simp add: isToolResultEntry_def echo_amended_def)
  next
    case (ArrayContent bs)
    with Some have m: "message entry = Some (ArrayContent bs)" by simp
    from isToolResultEntry_array [OF m] m show ?thesis by (simp add: echo_amended_def)
  qed
qed

theorem isToolResultEntry_classification_witness:
  "isToolResultEntry (user_entry (ArrayContent [tool_result_block])) \<and>
   \<not> isToolResultEntry (user_entry (StringContent ''fix the bug'')) \<and>
   \<not> isToolResultEntry (user_entry (ArrayContent [text_block ''ok'', tool_result_block]))"
  using isToolResultEntry_classification [of "user_entry (ArrayContent [tool_result_block])"]
    isToolResultEntry_classification [of "user_entry (StringContent ''fix the bug'')"]
    isToolResultEntry_classification
      [of "user_entry (ArrayContent [text_block ''ok'', tool_result_block])"]
  by (simp add: echo_amended_def user_entry_def non_blank_text_def tool_result_block_def
      text_block_def isWhiteSpace_def)

text \<open>
  A user entry with a text block holding one space and a \<^verbatim>\<open>tool_result\<close> block is
  classified as an echo, although it contains a text block.
\<close>

theorem blank_text_block_counterexample:
  "\<not> (isToolResultEntry (user_entry (ArrayContent [text_block '' '', tool_result_block]))
       \<longleftrightarrow> echo_as_specified (user_entry (ArrayContent [text_block '' '', tool_result_block])))"
  by (simp add: isToolResultEntry_def echo_as_specified_def user_entry_def text_block_def
      tool_result_block_def has_text_def trim_def isWhiteSpace_def)

subsection \<open>The turn loop on entries and on parsed values\<close>

lemma turn_loop_Entry:
  "turn_loop sid il now st (map Entry entries) = Inr (foldl (turn_step sid il now) st entries)"
  by (induction entries arbitrary: st) simp_all

lemma turn_loop_null: "JsonNull \<in> set vs \<Longrightarrow> turn_loop sid il now st vs = Inl TypeError"
  by (induction sid il now st vs rule: turn_loop.induct) auto

lemma parse_entries_null: "JsonNull \<in> set (parse_entries ls) \<longleftrightarrow> Some JsonNull \<in> set ls"
  by (induction ls rule: parse_entries.induct) auto

lemma parse_entries_line_entries:
  "Some JsonNull \<notin> set ls \<Longrightarrow> parse_entries ls = map Entry (line_entries ls)"
  by (induction ls rule: line_entries.induct) auto

lemma build_turns_null: "Some JsonNull \<in> set ls \<Longrightarrow> build_turns sid il now ls = Inl TypeError"
  by (simp add: build_turns_def turn_loop_null parse_entries_null)

lemma build_turns_entries:
  "Some JsonNull \<notin> set ls \<Longrightarrow>
   build_turns sid il now ls = Inr (turns_of sid il now (line_entries ls))"
  by (simp add: build_turns_def parse_entries_line_entries turn_loop_Entry turns_of_def Let_def)

lemma build_turns_Inr:
  assumes "build_turns sid il now ls = Inr ts"
  shows "Some JsonNull \<notin> set ls \<and> ts = turns_of sid il now (line_entries ls)"
proof (cases "Some JsonNull \<in> set ls")
  case True
  with assms build_turns_null [OF True, of sid il now] show ?thesis by simp
next
  case False
  with assms build_turns_entries [OF False, of sid il now] show ?thesis by simp
qed

lemma first_timestamp_Entry: "\<exists>ts. first_timestamp (map Entry entries) = Inr ts"
  by (induction entries) simp_all

subsection \<open>Retained turns\<close>

lemma push_turn_nonempty:
  "\<forall>t \<in> set ts. fileChanges t \<noteq> [] \<Longrightarrow> \<forall>t \<in> set (push_turn cur ts). fileChanges t \<noteq> []"
  by (auto simp: push_turn_def split: option.splits)

lemma st_turns_assistant_step [simp]:
  "st_turns (assistant_step sid il now entry st) = st_turns st"
  by (simp add: assistant_step_def Let_def split: option.splits)

lemma turn_step_nonempty:
  assumes "\<forall>t \<in> set (st_turns st). fileChanges t \<noteq> []"
  shows "\<forall>t \<in> set (st_turns (turn_step sid il now st entry)). fileChanges t \<noteq> []"
  using assms push_turn_nonempty [of "st_turns st" "currentTurn st"]
  by (simp add: turn_step_def user_step_def)

lemma turn_steps_nonempty:
  "\<forall>t \<in> set (st_turns st). fileChanges t \<noteq> [] \<Longrightarrow>
   \<forall>t \<in> set (st_turns (foldl (turn_step sid il now) st entries)). fileChanges t \<noteq> []"
proof (induction entries arbitrary: st)
  case Nil
  then show ?case by simp
next
  case (Cons entry entries)
  from Cons.prems have "\<forall>t \<in> set (st_turns (turn_step sid il now st entry)). fileChanges t \<noteq> []"
    by (rule turn_step_nonempty)
  then show ?case using Cons.IH by simp
qed

lemma turns_of_nonempty: "\<forall>t \<in> set (turns_of sid il now entries). fileChanges t \<noteq> []"
  unfolding turns_of_def Let_def
  by (rule push_turn_nonempty, rule turn_steps_nonempty) (simp add: initial_state_def)

lemma getSessionWithTurns_turns:
  assumes "getSessionWithTurns now dir pd sid = Inr session"
  shows "\<exists>f. open_session pd sid = Inr f \<and> Some JsonNull \<notin> set (file_lines f) \<and>
    turns session =
      turns_of sid (is_latest_session (getAllSessionMetadata now dir pd) sid) now
        (line_entries (file_lines f))"
proof (cases "open_session pd sid")
  case (Inl err)
  with assms show ?thesis by (simp add: getSessionWithTurns_def)
next
  case (Inr f)
  let ?il = "is_latest_session (getAllSessionMetadata now dir pd) sid"
  from assms Inr obtain ts where b: "build_turns sid ?il now (file_lines f) = Inr ts"
    by (cases "build_turns sid ?il now (file_lines f)")
       (simp_all add: getSessionWithTurns_def Let_def)
  with assms Inr have "turns session = ts"
    by (auto simp: getSessionWithTurns_def Let_def split: sum.splits)
  with build_turns_Inr [OF b] Inr show ?thesis by simp
qed

text \<open>
  Claim C6: every turn in the list that \<^verbatim>\<open>getSessionWithTurns\<close> returns has at least
  one file change, whether it was closed by a genuine user message or at the end of
  the entries.
\<close>

theorem getSessionWithTurns_retained_turns:
  assumes "getSessionWithTurns now dir pd sid = Inr session"
    and "t \<in> set (turns session)"
  shows "length (fileChanges t) \<ge> 1"
proof -
  from getSessionWithTurns_turns [OF assms(1)]
  have "\<exists>il es. turns session = turns_of sid il now es" by auto
  then obtain il es where "turns session = turns_of sid il now es" by auto
  with assms(2) turns_of_nonempty [of sid il now es]
  have "fileChanges t \<noteq> []" by simp
  then show ?thesis by (cases "fileChanges t") simp_all
qed

subsection \<open>Lines that do not parse\<close>

lemma parseLogFile_without_malformed: "parseLogFile (without_malformed ls) = parseLogFile ls"
  by (induction ls rule: parseLogFile.induct)
     (simp_all add: without_malformed_def split: option.splits)

lemma parse_entries_without_malformed: "parse_entries (without_malformed ls) = parse_entries ls"
  by (induction ls rule: parse_entries.induct) (simp_all add: without_malformed_def)

lemma metadata_loop_without_malformed:
  "metadata_loop acc (without_malformed ls) = metadata_loop acc ls"
  by (induction acc ls rule: metadata_loop.induct) (simp_all add: without_malformed_def)

lemma getFirstUserMessage_without_malformed:
  "getFirstUserMessage (without_malformed ls) = getFirstUserMessage ls"
  by (induction ls rule: getFirstUserMessage.induct)
     (auto simp: without_malformed_def split: option.splits message_content.splits)

lemma build_turns_without_malformed:
  "build_turns sid il now (without_malformed ls) = build_turns sid il now ls"
  by (simp add: build_turns_def parse_entries_without_malformed)

lemma extractSessionMetadata_clean:
  "extractSessionMetadata now dir (file, map_option clean_file f) =
   extractSessionMetadata now dir (file, f)"
  by (cases f) (simp_all add: extractSessionMetadata_def clean_file_def
      metadata_loop_without_malformed)

lemma metadata_of_files_clean:
  "metadata_of_files now dir (map (\<lambda>e. (fst e, map_option clean_file (snd e))) files) =
   metadata_of_files now dir files"
proof (induction files)
  case Nil
  then show ?case by simp
next
  case (Cons e es)
  obtain fname f where e: "e = (fname, f)" by (cases e)
  show ?case using Cons.IH
    by (simp add: e extractSessionMetadata_clean split: option.splits)
qed

lemma filter_jsonl_clean:
  "filter (\<lambda>e. endsWith (fst e) suf) (map (\<lambda>e. (fst e, g (snd e))) files) =
   map (\<lambda>e. (fst e, g (snd e))) (filter (\<lambda>e. endsWith (fst e) suf) files)"
  by (induction files) simp_all

lemma getAllSessionMetadata_clean:
  "getAllSessionMetadata now dir (clean_dir pd) = getAllSessionMetadata now dir pd"
  by (cases pd)
     (simp_all add: getAllSessionMetadata_def clean_dir_def filter_jsonl_clean
                    metadata_of_files_clean Let_def)

lemma map_of_clean:
  "map_of (map (\<lambda>e. (fst e, g (snd e))) files) k = map_option g (map_of files k)"
  by (induction files) auto

lemma open_session_clean:
  "open_session (clean_dir pd) sid = map_sum id clean_file (open_session pd sid)"
  by (cases pd) (simp_all add: open_session_def clean_dir_def map_of_clean split: option.splits)

text \<open>
  A line on which \<^verbatim>\<open>JSON.parse\<close> throws is skipped on every path: the flat change
  list, the turns and the session metadata are those of the file without such lines.
\<close>

lemma unparseable_lines_skipped:
  "parseLogFile ls = parseLogFile (without_malformed ls) \<and>
   build_turns sid il now ls = build_turns sid il now (without_malformed ls) \<and>
   metadata_loop acc ls = metadata_loop acc (without_malformed ls) \<and>
   getSessionChanges now dir pd sid = getSessionChanges now dir (clean_dir pd) sid \<and>
   getSessionWithTurns now dir pd sid = getSessionWithTurns now dir (clean_dir pd) sid \<and>
   getAllSessionMetadata now dir pd = getAllSessionMetadata now dir (clean_dir pd)"
proof -
  have "getSessionChanges now dir (clean_dir pd) sid = getSessionChanges now dir pd sid"
    by (cases "open_session pd sid")
       (simp_all add: getSessionChanges_def open_session_clean getAllSessionMetadata_clean
          clean_file_def parseLogFile_without_malformed getFirstUserMessage_without_malformed)
  moreover
  have "getSessionWithTurns now dir (clean_dir pd) sid = getSessionWithTurns now dir pd sid"
    by (cases "open_session pd sid")
       (simp_all add: getSessionWithTurns_def open_session_clean getAllSessionMetadata_clean
          clean_file_def build_turns_without_malformed parse_entries_without_malformed
          Let_def split: sum.splits)
  ultimately show ?thesis
    by (simp add: parseLogFile_without_malformed build_turns_without_malformed
        metadata_loop_without_malformed getAllSessionMetadata_clean)
qed

subsection \<open>Lines that parse to no record\<close>

text \<open>
  On the paths whose \<^verbatim>\<open>try\<close> holds the whole loop body, a line that parses to
  \<^verbatim>\<open>null\<close> is skipped as well: only the lines that are entries count.
\<close>

lemma non_records_skipped_inside_try:
  "parseLogFile ls = parseLogFile (filter is_entry ls) \<and>
   metadata_loop acc ls = metadata_loop acc (filter is_entry ls) \<and>
   getFirstUserMessage ls = getFirstUserMessage (filter is_entry ls)"
proof (intro conjI)
  show "parseLogFile ls = parseLogFile (filter is_entry ls)"
    by (induction ls rule: parseLogFile.induct) (simp_all split: option.splits)
  show "metadata_loop acc ls = metadata_loop acc (filter is_entry ls)"
    by (induction acc ls rule: metadata_loop.induct) simp_all
  show "getFirstUserMessage ls = getFirstUserMessage (filter is_entry ls)"
    by (induction ls rule: getFirstUserMessage.induct)
       (auto split: option.splits message_content.splits)
qed

lemma getSessionWithTurns_null:
  assumes "open_session pd sid = Inr f" and "Some JsonNull \<in> set (file_lines f)"
  shows "getSessionWithTurns now dir pd sid = Inl TypeError"
  using assms by (simp add: getSessionWithTurns_def build_turns_null)

lemmas sample_defs = sample_lines_def user_entry_def assistant_entry_def text_block_def
  tool_use_block_def write_input_def tool_result_block_def

text \<open>
  Claim C7 at a session file with a line that holds \<^verbatim>\<open>null\<close> between valid lines:
  \<^verbatim>\<open>parseLogFile\<close> and the metadata loop give what the file without that line gives,
  and \<^verbatim>\<open>getSessionWithTurns\<close> throws a TypeError, where on the file without the line it
  returns.
\<close>

theorem null_line_aborts_getSessionWithTurns:
  "getSessionWithTurns ''now'' ''dir'' null_line_dir ''s1'' = Inl TypeError \<and>
   getSessionWithTurns ''now'' ''dir'' clean_line_dir ''s1'' \<noteq> Inl TypeError \<and>
   parseLogFile null_line_lines = parseLogFile sample_lines_clean \<and>
   metadata_loop initial_acc null_line_lines = metadata_loop initial_acc sample_lines_clean"
proof (intro conjI)
  have o: "open_session null_line_dir ''s1'' =
      Inr \<lparr>file_mtime = 200, file_lines = null_line_lines\<rparr>"
    by (simp add: open_session_def null_line_dir_def)
  have "Some JsonNull \<in> set null_line_lines"
    by (simp add: null_line_lines_def)
  with getSessionWithTurns_null [OF o, of "''now''" "''dir''"]
  show "getSessionWithTurns ''now'' ''dir'' null_line_dir ''s1'' = Inl TypeError"
    by simp
  have "open_session clean_line_dir ''s1'' =
      Inr \<lparr>file_mtime = 200, file_lines = sample_lines_clean\<rparr>"
    by (simp add: open_session_def clean_line_dir_def)
  moreover have "Some JsonNull \<notin> set sample_lines_clean"
    by (simp add: sample_lines_clean_def)
  moreover have "first_timestamp (parse_entries sample_lines_clean) = Inr (Some ''t0'')"
    by (simp add: sample_lines_clean_def user_entry_def)
  ultimately show "getSessionWithTurns ''now'' ''dir'' clean_line_dir ''s1'' \<noteq> Inl TypeError"
    by (simp add: getSessionWithTurns_def build_turns_entries Let_def)
  have "filter is_entry null_line_lines = sample_lines_clean"
    by (simp add: null_line_lines_def sample_lines_clean_def)
  with non_records_skipped_inside_try [of null_line_lines initial_acc]
  show "parseLogFile null_line_lines = parseLogFile sample_lines_clean"
    and "metadata_loop initial_acc null_line_lines = metadata_loop initial_acc sample_lines_clean"
    by simp_all
qed

subsection \<open>The count of file changes in the metadata\<close>

lemma count_loop_eq: "count_loop n bs = n + length (filter is_file_mutating bs)"
  by (induction bs arbitrary: n) (auto simp: is_file_mutating_def)

lemma acc_fileCount_metadata_step:
  "acc_fileCount (metadata_step acc entry) =
   acc_fileCount acc + length (mutating_blocks (Some (Entry entry)))"
  by (simp add: metadata_step_def mutating_blocks_def count_loop_eq Let_def
      split: option.splits message_content.splits)

lemma acc_fileCount_metadata_loop:
  "acc_fileCount (metadata_loop acc ls) = acc_fileCount acc + count_mutating_blocks ls"
proof (induction acc ls rule: metadata_loop.induct)
  case (1 acc)
  then show ?case by (simp add: count_mutating_blocks_def)
next
  case (2 acc ls)
  then show ?case by (simp add: count_mutating_blocks_def mutating_blocks_def)
next
  case (3 acc ls)
  then show ?case by (simp add: count_mutating_blocks_def mutating_blocks_def)
next
  case (4 acc entry ls)
  then show ?case
    by (simp add: count_mutating_blocks_def acc_fileCount_metadata_step)
qed

lemma extractSessionMetadata_fileCount:
  "extractSessionMetadata now dir (file, Some f) = Some m \<Longrightarrow>
   sessionFile m = dir @ ''/'' @ file \<and> fileCount m = count_mutating_blocks (file_lines f)"
  by (auto simp: extractSessionMetadata_def Let_def acc_fileCount_metadata_loop initial_acc_def)

lemma set_metadata_of_files:
  "set (metadata_of_files now dir es) = {m. \<exists>e \<in> set es. extractSessionMetadata now dir e = Some m}"
  by (induction es) (auto split: option.splits)

lemma set_mark_latest_fileCount:
  "(\<lambda>m. (sessionFile m, fileCount m)) ` set (mark_latest ss) =
   (\<lambda>m. (sessionFile m, fileCount m)) ` set ss"
  by (cases ss) simp_all

text \<open>
  Claim C9: the \<^verbatim>\<open>fileCount\<close> that \<^verbatim>\<open>getAllSessionMetadata\<close> returns for a session file
  is the number of \<^verbatim>\<open>tool_use\<close> blocks named Write, Edit or MultiEdit in its parseable
  assistant entries with array content, each block counted, with or without a file path.
\<close>

theorem fileCount_counts_mutating_blocks:
  "(\<forall>fname f. (fname, Some f) \<in> set files \<and> endsWith fname ''.jsonl'' \<longrightarrow>
      (\<exists>m \<in> set (getAllSessionMetadata now dir (Directory files)).
         sessionFile m = dir @ ''/'' @ fname \<and>
         fileCount m = count_mutating_blocks (file_lines f))) \<and>
   (\<forall>m \<in> set (getAllSessionMetadata now dir (Directory files)).
      \<exists>fname f. (fname, Some f) \<in> set files \<and> endsWith fname ''.jsonl'' \<and>
         sessionFile m = dir @ ''/'' @ fname \<and>
         fileCount m = count_mutating_blocks (file_lines f))"
proof -
  let ?jsonl = "filter (\<lambda>e. endsWith (fst e) ''.jsonl'') files"
  let ?ms = "metadata_of_files now dir ?jsonl"
  let ?key = "\<lambda>m. (sessionFile m, fileCount m)"
  have result: "?key ` set (getAllSessionMetadata now dir (Directory files)) = ?key ` set ?ms"
  proof (cases "?jsonl = []")
    case True
    then show ?thesis by (simp add: getAllSessionMetadata_def)
  next
    case False
    then show ?thesis
      by (simp add: getAllSessionMetadata_def set_mark_latest_fileCount sort_newest_first_def)
  qed
  have fwd: "\<exists>m \<in> set (getAllSessionMetadata now dir (Directory files)).
         sessionFile m = dir @ ''/'' @ fname \<and>
         fileCount m = count_mutating_blocks (file_lines f)"
    if h: "(fname, Some f) \<in> set files" "endsWith fname ''.jsonl''" for fname f
  proof -
    obtain m0 where m0: "extractSessionMetadata now dir (fname, Some f) = Some m0"
      by (simp add: extractSessionMetadata_def Let_def)
    from h have "(fname, Some f) \<in> set ?jsonl" by simp
    with m0 have "m0 \<in> set ?ms" unfolding set_metadata_of_files by blast
    then have "?key m0 \<in> ?key ` set (getAllSessionMetadata now dir (Directory files))"
      unfolding result by (rule imageI)
    then obtain m where "m \<in> set (getAllSessionMetadata now dir (Directory files))"
      and "?key m = ?key m0" by auto
    with extractSessionMetadata_fileCount [OF m0] show ?thesis by auto
  qed
  have bwd: "\<exists>fname f. (fname, Some f) \<in> set files \<and> endsWith fname ''.jsonl'' \<and>
         sessionFile m = dir @ ''/'' @ fname \<and>
         fileCount m = count_mutating_blocks (file_lines f)"
    if h: "m \<in> set (getAllSessionMetadata now dir (Directory files))" for m
  proof -
    from h have "?key m \<in> ?key ` set ?ms" unfolding result [symmetric] by (rule imageI)
    then obtain m0 where m0: "m0 \<in> set ?ms" and k: "?key m = ?key m0" by auto
    from m0 obtain e where e: "e \<in> set ?jsonl" "extractSessionMetadata now dir e = Some m0"
      unfolding set_metadata_of_files by blast
    obtain fname fo where eq: "e = (fname, fo)" by (cases e)
    with e(2) obtain f where fo: "fo = Some f"
      by (cases fo) (simp_all add: extractSessionMetadata_def)
    from e eq fo extractSessionMetadata_fileCount [of now dir fname f m0] k
    show ?thesis by auto
  qed
  from fwd bwd show ?thesis by blast
qed

lemma string_of_nat_small:
  "string_of_nat 0 = ''0''" "string_of_nat 1 = ''1''" "string_of_nat 2 = ''2''"
  "string_of_nat 3 = ''3''"
  by code_simp+

lemma count_sample_lines: "count_mutating_blocks sample_lines = 2"
  by (simp add: count_mutating_blocks_def sample_lines_def mutating_blocks_def user_entry_def
      assistant_entry_def is_file_mutating_def text_block_def tool_use_block_def)

theorem fileCount_counts_mutating_blocks_witness:
  "\<exists>m. m \<in> set (getAllSessionMetadata ''now'' ''dir'' sample_dir) \<and>
       sessionFile m = ''dir/s1.jsonl'' \<and> fileCount m = 2"
proof -
  have mem: "(''s1.jsonl'', Some sample_file) \<in> set sample_files \<and>
      endsWith ''s1.jsonl'' ''.jsonl''"
    by (simp add: sample_files_def endsWith_def)
  from fileCount_counts_mutating_blocks [of sample_files "''now''" "''dir''"]
  have "\<forall>fname f. (fname, Some f) \<in> set sample_files \<and> endsWith fname ''.jsonl'' \<longrightarrow>
      (\<exists>m \<in> set (getAllSessionMetadata ''now'' ''dir'' (Directory sample_files)).
         sessionFile m = ''dir'' @ ''/'' @ fname \<and>
         fileCount m = count_mutating_blocks (file_lines f))"
    by (rule conjunct1)
  with mem have "\<exists>m \<in> set (getAllSessionMetadata ''now'' ''dir'' (Directory sample_files)).
         sessionFile m = ''dir'' @ ''/'' @ ''s1.jsonl'' \<and>
         fileCount m = count_mutating_blocks (file_lines sample_file)"
    by blast
  then obtain m where "m \<in> set (getAllSessionMetadata ''now'' ''dir'' (Directory sample_files))"
    and "sessionFile m = ''dir'' @ ''/'' @ ''s1.jsonl''"
    and "fileCount m = count_mutating_blocks (file_lines sample_file)"
    by blast
  then have "m \<in> set (getAllSessionMetadata ''now'' ''dir'' sample_dir) \<and>
       sessionFile m = ''dir/s1.jsonl'' \<and> fileCount m = 2"
    by (simp add: sample_dir_def sample_file_def count_sample_lines)
  then show ?thesis ..
qed

subsection \<open>Evaluation of the samples\<close>

lemma string_of_nat_Suc:
  "string_of_nat (Suc 0) = ''1''" "string_of_nat (Suc (Suc 0)) = ''2''"
  by code_simp+

lemmas turn_defs = turns_of_def turn_step_def user_step_def assistant_step_def
  initial_state_def push_turn_def new_turn_def add_to_turn_def is_array_def
  isToolResultEntry_def extractUserMessage_def extractAssistantText_def
  extractAllFileChanges_def switch_change_def mkChange_def input_prop_def or_else_def
  has_text_def trim_def isWhiteSpace_def blank_line_def single_edit_def

lemma sample_lines_no_null: "Some JsonNull \<notin> set sample_lines"
  by (simp add: sample_lines_def)

lemma sample_turns_eval:
  "map (\<lambda>t. (turn_id t, map fc_id (fileChanges t)))
     (turns_of ''s1'' il ''now'' (line_entries sample_lines))
   = [(''s1-turn-1'', [''s1-turn-1-t1-write-1''])]"
  by (simp add: sample_defs turn_defs string_of_nat_small string_of_nat_Suc Let_def)

lemma open_sample_session: "open_session sample_dir ''s1'' = Inr sample_file"
  by (simp add: open_session_def sample_dir_def sample_files_def)

theorem getSessionWithTurns_retained_turns_witness:
  "\<exists>session t. getSessionWithTurns ''now'' ''dir'' sample_dir ''s1'' = Inr session \<and>
      turns session = [t] \<and> turn_id t = ''s1-turn-1'' \<and> length (fileChanges t) \<ge> 1"
proof -
  have "first_timestamp (parse_entries sample_lines) = Inr (Some ''t0'')"
    by (simp add: sample_lines_def user_entry_def)
  then obtain session where
    s: "getSessionWithTurns ''now'' ''dir'' sample_dir ''s1'' = Inr session"
    by (simp add: getSessionWithTurns_def open_sample_session Let_def sample_file_def
        build_turns_entries [OF sample_lines_no_null])
  from getSessionWithTurns_turns [OF s] obtain il where
    "turns session = turns_of ''s1'' il ''now'' (line_entries sample_lines)"
    by (auto simp: open_sample_session sample_file_def)
  with sample_turns_eval [of il]
  have "map (\<lambda>t. (turn_id t, map fc_id (fileChanges t))) (turns session)
      = [(''s1-turn-1'', [''s1-turn-1-t1-write-1''])]"
    by simp
  then obtain t where t: "turns session = [t]" "turn_id t = ''s1-turn-1''"
    by (cases "turns session") auto
  from t(1) have "t \<in> set (turns session)" by simp
  from getSessionWithTurns_retained_turns [OF s this] have "length (fileChanges t) \<ge> 1" .
  with s t show ?thesis by blast
qed

subsection \<open>The latest session\<close>

lemma extractSessionMetadata_not_latest:
  "extractSessionMetadata now dir e = Some m \<Longrightarrow> \<not> isLatest m \<and> (\<exists>f. snd e = Some f)"
  by (cases e) (auto simp: extractSessionMetadata_def Let_def split: option.splits)

lemma metadata_of_files_not_latest:
  "m \<in> set (metadata_of_files now dir es) \<Longrightarrow> \<not> isLatest m"
  unfolding set_metadata_of_files using extractSessionMetadata_not_latest by blast

lemma metadata_of_files_nonempty:
  assumes "(fname, Some f) \<in> set es"
  shows "metadata_of_files now dir es \<noteq> []"
proof -
  obtain m where "extractSessionMetadata now dir (fname, Some f) = Some m"
    by (simp add: extractSessionMetadata_def Let_def)
  with assms have "m \<in> set (metadata_of_files now dir es)"
    unfolding set_metadata_of_files by blast
  then show ?thesis by auto
qed

lemma sort_newest_first_head:
  assumes "sort_newest_first ms = s # ss"
  shows "\<forall>r \<in> set ss. mtime r \<le> mtime s"
proof -
  have "sorted (map (\<lambda>s. - mtime s) (sort_newest_first ms))"
    unfolding sort_newest_first_def by (rule sorted_sort_key)
  with assms show ?thesis by simp
qed

text \<open>
  Claim C1, as the code has it: when at least one session file of the project can be
  read, exactly one session of the returned list is flagged as latest; it is the first
  of the list, and no session has a greater modification time.
\<close>

theorem getAllSessionMetadata_latest:
  assumes "(fname, Some f) \<in> set files" and "endsWith fname ''.jsonl''"
  shows "\<exists>s ss. getAllSessionMetadata now dir (Directory files) = s # ss \<and>
           isLatest s \<and> (\<forall>r \<in> set ss. \<not> isLatest r \<and> mtime r \<le> mtime s) \<and>
           length (filter isLatest (s # ss)) = 1"
proof -
  let ?jsonl = "filter (\<lambda>e. endsWith (fst e) ''.jsonl'') files"
  let ?ms = "metadata_of_files now dir ?jsonl"
  from assms have mem: "(fname, Some f) \<in> set ?jsonl" by simp
  have ne: "?jsonl \<noteq> []"
  proof
    assume e: "?jsonl = []"
    from mem show False unfolding e by simp
  qed
  from mem have "?ms \<noteq> []" by (rule metadata_of_files_nonempty)
  moreover have "length (sort_newest_first ?ms) = length ?ms"
    unfolding sort_newest_first_def by (rule length_sort)
  ultimately have "sort_newest_first ?ms \<noteq> []" by auto
  then obtain s ss where sorted: "sort_newest_first ?ms = s # ss"
    by (cases "sort_newest_first ?ms") auto
  have "set (s # ss) = set ?ms"
    unfolding sorted [symmetric] sort_newest_first_def by simp
  then have unflagged: "\<forall>r \<in> set ss. \<not> isLatest r"
    using metadata_of_files_not_latest [of _ now dir ?jsonl] by auto
  then have none: "filter isLatest ss = []" by (simp add: filter_empty_conv)
  from ne sorted
  have result: "getAllSessionMetadata now dir (Directory files) = s\<lparr>isLatest := True\<rparr> # ss"
    by (simp add: getAllSessionMetadata_def)
  from sort_newest_first_head [OF sorted] unflagged none
  have "isLatest (s\<lparr>isLatest := True\<rparr>) \<and>
        (\<forall>r \<in> set ss. \<not> isLatest r \<and> mtime r \<le> mtime (s\<lparr>isLatest := True\<rparr>)) \<and>
        length (filter isLatest (s\<lparr>isLatest := True\<rparr> # ss)) = 1"
    by simp
  with result show ?thesis by blast
qed

lemma sample_sessions_eval:
  "map (\<lambda>s. (sessionId s, mtime s, isLatest s)) (getAllSessionMetadata ''now'' ''dir'' sample_dir)
   = [(''s1'', 200, True), (''s0'', 100, False)]"
  by (simp add: getAllSessionMetadata_def sample_dir_def sample_files_def endsWith_def
      extractSessionMetadata_def sort_newest_first_def sample_file_def Let_def)

theorem getAllSessionMetadata_latest_witness:
  "\<exists>s ss. getAllSessionMetadata ''now'' ''dir'' sample_dir = s # ss \<and>
      sessionId s = ''s1'' \<and> isLatest s \<and> length (filter isLatest (s # ss)) = 1"
proof -
  have "(''s1.jsonl'', Some sample_file) \<in> set sample_files"
    and "endsWith ''s1.jsonl'' ''.jsonl''"
    by (simp_all add: sample_files_def endsWith_def)
  from getAllSessionMetadata_latest [OF this, of "''now''" "''dir''"]
  obtain s ss where r: "getAllSessionMetadata ''now'' ''dir'' sample_dir = s # ss"
    and l: "isLatest s" "length (filter isLatest (s # ss)) = 1"
    unfolding sample_dir_def by blast
  from sample_sessions_eval r have "sessionId s = ''s1''" by simp
  with r l show ?thesis by blast
qed

lemma tie_sessions_eval:
  "map (\<lambda>s. (sessionId s, mtime s, isLatest s)) (getAllSessionMetadata ''now'' ''dir'' tie_dir)
   = [(''a'', 100, True), (''b'', 100, False)]"
  by (simp add: getAllSessionMetadata_def tie_dir_def endsWith_def
      extractSessionMetadata_def sort_newest_first_def Let_def)

lemma tie_not_specified:
  assumes "map (\<lambda>s. (sessionId s, mtime s, isLatest s)) ss = [(a, t, True), (b, t, False)]"
    and "a \<noteq> b"
  shows "\<not> latest_as_specified ss"
proof -
  from assms(1) obtain s1 s2 where r: "ss = [s1, s2]"
    by (cases ss; cases "tl ss") simp_all
  from assms(1) have f: "sessionId s1 = a" "sessionId s2 = b" "mtime s1 = t" "mtime s2 = t"
    "isLatest s1"
    unfolding r by simp_all
  from f assms(2) have "s2 \<noteq> s1" by auto
  with f show ?thesis unfolding r latest_as_specified_def by simp
qed

lemma tie_not_as_specified:
  "\<not> latest_as_specified (getAllSessionMetadata ''now'' ''dir'' tie_dir)"
  by (rule tie_not_specified [OF tie_sessions_eval]) simp

lemma unreadable_not_as_specified:
  "\<not> latest_as_specified (getAllSessionMetadata ''now'' ''dir'' unreadable_dir)"
  by (simp add: latest_as_specified_def getAllSessionMetadata_def unreadable_dir_def
      endsWith_def extractSessionMetadata_def sort_newest_first_def)

text \<open>
  With two sessions modified at the same time one of them is flagged although its time
  is not strictly the greatest, and with no readable session file nothing is flagged.
\<close>

theorem latest_session_counterexample:
  "\<not> latest_as_specified (getAllSessionMetadata ''now'' ''dir'' tie_dir) \<and>
   \<not> latest_as_specified (getAllSessionMetadata ''now'' ''dir'' unreadable_dir)"
  using tie_not_as_specified unreadable_not_as_specified by (rule conjI)

subsection \<open>Extraction of file changes\<close>

lemma switch_change_cases:
  "switch_change tid ts il n b =
     (if is_file_mutating b \<or> name b \<in> {Some ''Write'', Some ''Edit'', Some ''MultiEdit''}
      then switch_change tid ts il n b else None)"
  by (auto simp: switch_change_def)

lemma switch_change_core:
  assumes "switch_change tid ts il n b = Some c"
  shows "change_core c = change_of_block b \<and> filePath c = input_prop b file_path \<and>
         name b \<in> {Some ''Write'', Some ''Edit'', Some ''MultiEdit''}"
  using assms
  by (auto simp: switch_change_def change_core_def change_of_block_def mkChange_def
      split: if_splits)

lemma switch_change_None:
  "switch_change tid ts il n b = None \<longleftrightarrow>
   name b \<notin> {Some ''Write'', Some ''Edit'', Some ''MultiEdit''}"
  by (auto simp: switch_change_def)

lemma extractAllFileChanges_loop_core:
  "map change_core (extractAllFileChanges_loop tid ts il n bs) =
   map change_of_block (filter has_path (filter is_file_mutating bs))"
proof (induction bs arbitrary: n)
  case Nil
  then show ?case by simp
next
  case (Cons b bs)
  show ?case
  proof (cases "block_type b = ''tool_use''")
    case False
    then show ?thesis using Cons.IH by (simp add: is_file_mutating_def)
  next
    case True
    show ?thesis
    proof (cases "switch_change tid ts il (n + 1) b")
      case None
      then have "\<not> is_file_mutating b"
        by (simp add: switch_change_None is_file_mutating_def)
      with True None show ?thesis using Cons.IH by simp
    next
      case (Some c)
      from switch_change_core [OF Some] True
      have "is_file_mutating b" "change_core c = change_of_block b"
        "truthy (filePath c) = has_path b"
        by (simp_all add: is_file_mutating_def has_path_def)
      with True Some show ?thesis using Cons.IH by simp
    qed
  qed
qed

lemma extractAllFileChanges_core:
  "entry_type entry = ''assistant'' \<Longrightarrow>
   map change_core (extractAllFileChanges entry tid il) = changes_with_path (Some (Entry entry))"
  by (simp add: extractAllFileChanges_def changes_with_path_def mutating_blocks_def
      extractAllFileChanges_loop_core split: option.splits message_content.splits)

lemma extractAllFileChanges_loop_has_path:
  "c \<in> set (extractAllFileChanges_loop tid ts il n bs) \<Longrightarrow> truthy (filePath c)"
  by (induction bs arbitrary: n) (auto split: option.splits if_splits)

lemma extractAllFileChanges_has_path:
  "c \<in> set (extractAllFileChanges entry tid il) \<Longrightarrow> truthy (filePath c)"
  by (auto simp: extractAllFileChanges_def extractAllFileChanges_loop_has_path
      split: option.splits message_content.splits)

lemma concat_push_turn:
  "concat (map fileChanges (push_turn cur ts)) =
   concat (map fileChanges ts) @ (case cur of Some t \<Rightarrow> fileChanges t | None \<Rightarrow> [])"
  by (simp add: push_turn_def split: option.splits)

lemma all_changes_user_step: "all_changes (user_step sid il now entry st) = all_changes st"
  by (simp add: all_changes_def user_step_def concat_push_turn new_turn_def)

lemma all_changes_assistant_step:
  "all_changes (assistant_step sid il now entry st) =
   all_changes st @
   (if entry_type entry = ''assistant'' then
      extractAllFileChanges entry
        (or_else (map_option turn_id (currentTurn st)) (sid @ ''-turn-0'')) il
    else [])"
proof (cases "entry_type entry = ''assistant'' \<and> content_truthy (message entry)
    \<and> is_array (message entry)")
  case False
  then have st: "assistant_step sid il now entry st = st"
    by (simp only: assistant_step_def if_False)
  from False
  have "entry_type entry = ''assistant'' \<Longrightarrow> extractAllFileChanges entry tid il = []" for tid
    by (auto simp: extractAllFileChanges_def is_array_def
        split: option.splits message_content.splits)
  then show ?thesis unfolding st by simp
next
  case True
  then show ?thesis
    by (cases "currentTurn st")
       (simp_all add: assistant_step_def all_changes_def Let_def add_to_turn_def new_turn_def)
qed

lemma changes_with_path_not_assistant:
  "entry_type entry \<noteq> ''assistant'' \<Longrightarrow> changes_with_path (Some (Entry entry)) = []"
  by (simp add: changes_with_path_def mutating_blocks_def)

lemma all_changes_turn_step:
  "map change_core (all_changes (turn_step sid il now st entry)) =
   map change_core (all_changes st) @ changes_with_path (Some (Entry entry))"
  by (simp add: turn_step_def all_changes_assistant_step all_changes_user_step
      extractAllFileChanges_core changes_with_path_not_assistant)

lemma all_changes_turn_steps:
  "map change_core (all_changes (foldl (turn_step sid il now) st entries)) =
   map change_core (all_changes st) @
   concat (map (\<lambda>e. changes_with_path (Some (Entry e))) entries)"
  by (induction entries arbitrary: st) (simp_all add: all_changes_turn_step)

lemma changes_with_path_line_entries:
  "concat (map (\<lambda>e. changes_with_path (Some (Entry e))) (line_entries ls)) =
   concat (map changes_with_path ls)"
  by (induction ls rule: line_entries.induct)
     (simp_all add: changes_with_path_def [of None] mutating_blocks_def [of None]
        changes_with_path_def [of "Some JsonNull"] mutating_blocks_def [of "Some JsonNull"])

lemma all_changes_initial_state: "all_changes initial_state = []"
  by (simp add: all_changes_def initial_state_def)

lemma turns_of_all_changes:
  "concat (map fileChanges (turns_of sid il now entries)) =
   all_changes (foldl (turn_step sid il now) initial_state entries)"
  by (simp add: turns_of_def Let_def concat_push_turn all_changes_def)

lemma turns_of_changes:
  "map change_core (concat (map fileChanges (turns_of sid il now (line_entries ls)))) =
   concat (map changes_with_path ls)"
  by (simp add: turns_of_all_changes all_changes_turn_steps changes_with_path_line_entries
      all_changes_initial_state)

text \<open>
  Claim C3, as the code has it on the turn path: from an assistant entry with array
  content, \<^verbatim>\<open>extractAllFileChanges\<close> gives one change per Write, Edit or MultiEdit
  invocation that has a non-empty file path, in content order, and on a session without
  a \<^verbatim>\<open>null\<close> line the turns are built and their changes are those of all entries, in
  entry order.
\<close>

theorem turn_path_extracts_every_change_with_path:
  "(entry_type entry = ''assistant'' \<longrightarrow>
      map change_core (extractAllFileChanges entry turnId il) =
        changes_with_path (Some (Entry entry))) \<and>
   (Some JsonNull \<notin> set ls \<longrightarrow>
      (\<exists>ts. build_turns sid il now ls = Inr ts \<and>
         map change_core (concat (map fileChanges ts)) = concat (map changes_with_path ls)))"
  by (simp add: extractAllFileChanges_core build_turns_entries turns_of_changes)

lemmas extract_defs = extractAllFileChanges_def switch_change_def mkChange_def input_prop_def
  or_else_def single_edit_def

lemmas spec_defs = changes_with_path_def changes_as_specified_def mutating_blocks_def
  is_file_mutating_def has_path_def change_of_block_def change_core_def

theorem turn_path_extracts_every_change_with_path_witness:
  "map change_core (extractAllFileChanges two_writes_entry ''s1-turn-1'' True) =
     [(Write, Some ''a.txt'', Some ''hello'', None), (Write, Some ''b.txt'', Some ''world'', None)] \<and>
   (\<exists>ts. build_turns ''s1'' True ''now'' sample_lines = Inr ts \<and>
      map change_core (concat (map fileChanges ts)) =
        [(Write, Some ''a.txt'', Some ''hello'', None)])"
proof -
  have "entry_type two_writes_entry = ''assistant''"
    by (simp add: two_writes_entry_def assistant_entry_def)
  moreover have "changes_with_path (Some (Entry two_writes_entry)) =
     [(Write, Some ''a.txt'', Some ''hello'', None), (Write, Some ''b.txt'', Some ''world'', None)]"
    by (simp add: spec_defs two_writes_entry_def assistant_entry_def tool_use_block_def
        write_input_def input_prop_def)
  moreover have "concat (map changes_with_path sample_lines) =
     [(Write, Some ''a.txt'', Some ''hello'', None)]"
    by (simp add: spec_defs sample_defs input_prop_def)
  ultimately show ?thesis
    using turn_path_extracts_every_change_with_path
      [of two_writes_entry "''s1-turn-1''" True sample_lines "''s1''" "''now''"]
      sample_lines_no_null
    by simp
qed

text \<open>
  On the flat path only the first of two Write invocations of an entry is returned, and
  on the turn path a Write without a file path gives no change.
\<close>

theorem one_change_per_invocation_counterexample:
  "map change_core (parseLogFile [Some (Entry two_writes_entry)]) \<noteq>
     changes_as_specified (Some (Entry two_writes_entry)) \<and>
   map change_core (extractAllFileChanges pathless_entry ''s1-turn-1'' True) \<noteq>
     changes_as_specified (Some (Entry pathless_entry))"
  by (simp add: spec_defs extract_defs extractFileChange_def two_writes_entry_def
      pathless_entry_def assistant_entry_def tool_use_block_def write_input_def)

subsection \<open>Changes without a target path\<close>

text \<open>
  Claim C2 at a session whose only entry is an assistant Write with no input:
  \<^verbatim>\<open>parseLogFile\<close> returns a change whose \<^verbatim>\<open>filePath\<close> is undefined, where
  \<^verbatim>\<open>extractAllFileChanges\<close> returns none.
\<close>

theorem parseLogFile_returns_pathless_change:
  "map (\<lambda>c. (fc_id c, filePath c)) (parseLogFile [Some (Entry pathless_entry)]) =
     [(''t1-write'', None)] \<and>
   extractAllFileChanges pathless_entry ''s1-turn-1'' True = []"
  by (simp add: extract_defs extractFileChange_def pathless_entry_def assistant_entry_def
      tool_use_block_def)

subsection \<open>Changes extracted before any turn is open\<close>

lemma extractAllFileChanges_loop_prefix:
  "c \<in> set (extractAllFileChanges_loop tid ts il n bs) \<Longrightarrow> prefix tid (fc_id c)"
  by (induction bs arbitrary: n)
     (auto simp: switch_change_def mkChange_def split: option.splits if_splits)

lemma extractAllFileChanges_prefix:
  "c \<in> set (extractAllFileChanges entry tid il) \<Longrightarrow> prefix tid (fc_id c)"
  by (auto simp: extractAllFileChanges_def extractAllFileChanges_loop_prefix
      split: option.splits message_content.splits)

lemma extractAllFileChanges_empty_iff:
  "entry_type entry = ''assistant'' \<Longrightarrow>
   extractAllFileChanges entry tid il = [] \<longleftrightarrow> changes_with_path (Some (Entry entry)) = []"
  using extractAllFileChanges_core [of entry tid il] by (metis map_is_Nil_conv)

lemma or_else_no_turn: "or_else None d = d"
  by (simp add: or_else_def)

lemma turn_step_quiet:
  assumes "currentTurn st = None" and "\<not> opens_turn entry"
  shows "turn_step sid il now st entry = st"
proof -
  from assms(2) have u: "user_step sid il now entry st = st"
    by (auto simp: user_step_def opens_turn_def)
  show ?thesis
  proof (cases "entry_type entry = ''assistant'' \<and> content_truthy (message entry)
      \<and> is_array (message entry)")
    case False
    then have "assistant_step sid il now entry st = st"
      by (simp only: assistant_step_def if_False)
    with u show ?thesis by (simp add: turn_step_def)
  next
    case True
    with assms(2) have "changes_with_path (Some (Entry entry)) = []"
      "extractAssistantText entry = []"
      by (auto simp: opens_turn_def)
    with True have "extractAllFileChanges entry (sid @ ''-turn-0'') il = []"
      "extractAssistantText entry = []"
      by (simp_all add: extractAllFileChanges_empty_iff)
    with True assms(1) have "assistant_step sid il now entry st = st"
      by (simp add: assistant_step_def or_else_no_turn)
    with u show ?thesis by (simp add: turn_step_def)
  qed
qed

lemma turn_steps_quiet:
  "currentTurn st = None \<Longrightarrow> list_all (\<lambda>e. \<not> opens_turn e) pre \<Longrightarrow>
   foldl (turn_step sid il now) st pre = st"
  by (induction pre) (simp_all add: turn_step_quiet)

lemma turn_step_first_change:
  assumes "entry_type entry = ''assistant''"
    and "extractAllFileChanges entry (sid @ ''-turn-0'') il \<noteq> []"
  shows "first_turn_holds (sid @ ''-turn-1'') (extractAllFileChanges entry (sid @ ''-turn-0'') il)
           (turn_step sid il now initial_state entry)"
proof -
  from assms(1) have u: "user_step sid il now entry initial_state = initial_state"
    by (simp add: user_step_def)
  from assms(2) have "is_array (message entry)"
    by (auto simp: extractAllFileChanges_def is_array_def
        split: option.splits message_content.splits)
  moreover from this have "content_truthy (message entry)"
    by (auto simp: is_array_def split: option.splits message_content.splits)
  ultimately show ?thesis using assms unfolding turn_step_def u
    by (simp add: assistant_step_def initial_state_def or_else_no_turn
        first_turn_holds_def add_to_turn_def new_turn_def string_of_nat_Suc Let_def)
qed

lemma first_turn_holds_user_step:
  assumes "first_turn_holds tid chs st" and "chs \<noteq> []"
  shows "first_turn_holds tid chs (user_step sid il now entry st)"
proof (cases "st_turns st")
  case (Cons t ts)
  with assms show ?thesis
    by (auto simp: first_turn_holds_def user_step_def push_turn_def split: option.splits)
next
  case Nil
  with assms obtain t where t: "currentTurn st = Some t" "turn_id t = tid"
    "prefix chs (fileChanges t)"
    by (auto simp: first_turn_holds_def split: option.splits)
  from t(3) assms(2) have "fileChanges t \<noteq> []" by auto
  with Nil t show ?thesis
    by (simp add: first_turn_holds_def user_step_def push_turn_def)
qed

lemma first_turn_holds_assistant_step:
  assumes "first_turn_holds tid chs st"
  shows "first_turn_holds tid chs (assistant_step sid il now entry st)"
proof (cases "st_turns st")
  case (Cons t ts)
  with assms show ?thesis by (simp add: first_turn_holds_def)
next
  case Nil
  with assms obtain t where t: "currentTurn st = Some t" "turn_id t = tid"
    "prefix chs (fileChanges t)"
    by (auto simp: first_turn_holds_def split: option.splits)
  with Nil show ?thesis
    by (auto simp: first_turn_holds_def assistant_step_def add_to_turn_def Let_def
        intro: prefix_prefix)
qed

lemma first_turn_holds_turn_steps:
  "first_turn_holds tid chs st \<Longrightarrow> chs \<noteq> [] \<Longrightarrow>
   first_turn_holds tid chs (foldl (turn_step sid il now) st entries)"
  by (induction entries arbitrary: st)
     (simp_all add: turn_step_def first_turn_holds_user_step first_turn_holds_assistant_step)

lemma first_turn_holds_push_turn:
  assumes "first_turn_holds tid chs st" and "chs \<noteq> []"
  shows "\<exists>t ts. push_turn (currentTurn st) (st_turns st) = t # ts \<and>
           turn_id t = tid \<and> prefix chs (fileChanges t)"
proof (cases "st_turns st")
  case (Cons t ts)
  with assms show ?thesis
    by (auto simp: first_turn_holds_def push_turn_def split: option.splits)
next
  case Nil
  with assms obtain t where t: "currentTurn st = Some t" "turn_id t = tid"
    "prefix chs (fileChanges t)"
    by (auto simp: first_turn_holds_def split: option.splits)
  from t(3) assms(2) have "fileChanges t \<noteq> []" by auto
  with Nil t show ?thesis by (simp add: push_turn_def)
qed

text \<open>
  Claim C10, as the code has it: when a file-mutating assistant entry comes before any
  entry that opens a turn (before every genuine user message and every assistant entry
  with text or a change), the first turn returned has the id ending in turn-1 and starts
  with the changes of that entry, whose ids start with the session id and turn-0.
\<close>

theorem early_changes_keep_turn_zero_id:
  assumes "parse_entries ls = map Entry (pre @ entry # rest)"
    and "list_all (\<lambda>e. \<not> opens_turn e) pre"
    and "entry_type entry = ''assistant''"
    and "extractAllFileChanges entry (sid @ ''-turn-0'') il \<noteq> []"
  shows "\<exists>t ts. build_turns sid il now ls = Inr (t # ts) \<and>
           turn_id t = sid @ ''-turn-1'' \<and>
           prefix (extractAllFileChanges entry (sid @ ''-turn-0'') il) (fileChanges t) \<and>
           list_all (\<lambda>c. prefix (sid @ ''-turn-0'') (fc_id c))
             (extractAllFileChanges entry (sid @ ''-turn-0'') il)"
proof -
  let ?chs = "extractAllFileChanges entry (sid @ ''-turn-0'') il"
  let ?st = "foldl (turn_step sid il now) initial_state (pre @ entry # rest)"
  have "foldl (turn_step sid il now) initial_state pre = initial_state"
    using assms(2) by (simp add: turn_steps_quiet initial_state_def)
  then have "?st = foldl (turn_step sid il now) (turn_step sid il now initial_state entry) rest"
    by simp
  moreover have "first_turn_holds (sid @ ''-turn-1'') ?chs
      (foldl (turn_step sid il now) (turn_step sid il now initial_state entry) rest)"
    using assms(3,4) by (intro first_turn_holds_turn_steps turn_step_first_change)
  ultimately have "first_turn_holds (sid @ ''-turn-1'') ?chs ?st" by simp
  from first_turn_holds_push_turn [OF this assms(4)]
  obtain t ts where "push_turn (currentTurn ?st) (st_turns ?st) = t # ts"
    and "turn_id t = sid @ ''-turn-1''" and "prefix ?chs (fileChanges t)"
    by blast
  moreover have "build_turns sid il now ls =
      Inr (push_turn (currentTurn ?st) (st_turns ?st))"
    unfolding build_turns_def assms(1) turn_loop_Entry by simp
  moreover have "list_all (\<lambda>c. prefix (sid @ ''-turn-0'') (fc_id c)) ?chs"
    by (simp add: list_all_iff extractAllFileChanges_prefix)
  ultimately show ?thesis by simp
qed

lemma early_write_changes:
  "map fc_id (extractAllFileChanges early_write_entry ''s1-turn-0'' True) = [''s1-turn-0-t1-write-1'']"
  by (simp add: extract_defs early_write_entry_def assistant_entry_def tool_use_block_def
      write_input_def string_of_nat_Suc)

theorem early_changes_keep_turn_zero_id_witness:
  "\<exists>t ts. build_turns ''s1'' True ''now'' early_write_lines = Inr (t # ts) \<and>
      turn_id t = ''s1-turn-1'' \<and>
      prefix (extractAllFileChanges early_write_entry ''s1-turn-0'' True) (fileChanges t) \<and>
      map fc_id (extractAllFileChanges early_write_entry ''s1-turn-0'' True) =
        [''s1-turn-0-t1-write-1'']"
proof -
  have 1: "parse_entries early_write_lines =
      map Entry ([user_entry (ArrayContent [tool_result_block])] @ early_write_entry #
        [user_entry (StringContent ''thanks'')])"
    by (simp add: early_write_lines_def)
  have 2: "list_all (\<lambda>e. \<not> opens_turn e) [user_entry (ArrayContent [tool_result_block])]"
    by (simp add: opens_turn_def user_entry_def tool_result_block_def isToolResultEntry_def
        has_text_def)
  have 3: "entry_type early_write_entry = ''assistant''"
    by (simp add: early_write_entry_def assistant_entry_def)
  have 4: "extractAllFileChanges early_write_entry (''s1'' @ ''-turn-0'') True \<noteq> []"
    using early_write_changes by auto
  from early_changes_keep_turn_zero_id [OF 1 2 3 4, of "''now''"] early_write_changes
  show ?thesis by simp blast
qed

lemma late_write_turns_eval:
  "map (\<lambda>t. (turn_id t, map fc_id (fileChanges t)))
     (turns_of ''s1'' True ''now'' (line_entries late_write_lines))
   = [(''s1-turn-1'', [''s1-turn-1-t1-write-1''])]"
  by (simp add: late_write_lines_def sample_defs turn_defs string_of_nat_small
      string_of_nat_Suc Let_def)

lemma late_write_build_turns:
  "build_turns ''s1'' True ''now'' late_write_lines =
     Inr (turns_of ''s1'' True ''now'' (line_entries late_write_lines))"
  by (rule build_turns_entries) (simp add: late_write_lines_def)

text \<open>
  In a session without user messages where assistant text comes first, the Write of a
  later entry is extracted under the id of the turn that the text opened: its id does
  not start with turn-0.
\<close>

theorem later_entry_counterexample:
  "(case build_turns ''s1'' True ''now'' late_write_lines of
      Inr ts \<Rightarrow> \<not> list_all (turn_one_with_turn_zero_ids ''s1'') ts
    | Inl err \<Rightarrow> False)"
proof -
  let ?ts = "turns_of ''s1'' True ''now'' (line_entries late_write_lines)"
  from late_write_turns_eval obtain t where
    t: "?ts = [t]" and f: "map fc_id (fileChanges t) = [''s1-turn-1-t1-write-1'']"
    by (cases ?ts) auto
  from f obtain c where "fileChanges t = [c]" "fc_id c = ''s1-turn-1-t1-write-1''"
    by (cases "fileChanges t") auto
  then have "\<not> list_all (turn_one_with_turn_zero_ids ''s1'') ?ts"
    unfolding t by (simp add: turn_one_with_turn_zero_ids_def)
  then show ?thesis by (simp add: late_write_build_turns)
qed

subsection \<open>Decimal numerals and dashes\<close>

lemma digit_char_inj: "a < 10 \<Longrightarrow> b < 10 \<Longrightarrow> digit_char a = digit_char b \<Longrightarrow> a = b"
  unfolding digit_char_def
  by (subst (asm) nth_eq_iff_index_eq) simp_all

lemma digit_char_not_dash:
  assumes "d < 10"
  shows "digit_char d \<noteq> CHR ''-''"
proof -
  from assms have "digit_char d \<in> set ''0123456789''"
    unfolding digit_char_def by (intro nth_mem) simp
  then show ?thesis by auto
qed

lemma string_of_nat_not_Nil: "string_of_nat n \<noteq> []"
  by (subst string_of_nat.simps) simp

lemma dash_notin_string_of_nat: "CHR ''-'' \<notin> set (string_of_nat n)"
proof (induction n rule: string_of_nat.induct)
  case (1 n)
  show ?case
  proof (cases "n < 10")
    case True
    then show ?thesis
      using digit_char_not_dash [of n] by (subst string_of_nat.simps) auto
  next
    case False
    with 1 have "CHR ''-'' \<notin> set (string_of_nat (n div 10))" by simp
    moreover have "digit_char (n mod 10) \<noteq> CHR ''-''"
      by (rule digit_char_not_dash) simp
    ultimately show ?thesis using False
      by (subst string_of_nat.simps) auto
  qed
qed

lemma string_of_nat_inj: "string_of_nat n = string_of_nat m \<Longrightarrow> n = m"
proof (induction n arbitrary: m rule: string_of_nat.induct)
  case (1 n)
  show ?case
  proof (cases "n < 10")
    case n: True
    show ?thesis
    proof (cases "m < 10")
      case True
      with n 1(2) show ?thesis
        by (simp add: string_of_nat.simps [of n] string_of_nat.simps [of m] digit_char_inj)
    next
      case False
      with n 1(2) string_of_nat_not_Nil [of "m div 10"] show ?thesis
        by (simp add: string_of_nat.simps [of n] string_of_nat.simps [of m]
            Cons_eq_append_conv)
    qed
  next
    case n: False
    show ?thesis
    proof (cases "m < 10")
      case True
      with n 1(2) string_of_nat_not_Nil [of "n div 10"] show ?thesis
        by (simp add: string_of_nat.simps [of n] string_of_nat.simps [of m]
            append_eq_Cons_conv)
    next
      case False
      with n 1(2) have e: "string_of_nat (n div 10) = string_of_nat (m div 10)"
        and d: "digit_char (n mod 10) = digit_char (m mod 10)"
        by (simp_all add: string_of_nat.simps [of n] string_of_nat.simps [of m])
      from 1(1) [OF n e] have "n div 10 = m div 10" .
      moreover from d have "n mod 10 = m mod 10" by (simp add: digit_char_inj)
      ultimately show ?thesis by (metis div_mult_mod_eq)
    qed
  qed
qed

lemma split_at_first:
  "x \<notin> set a \<Longrightarrow> x \<notin> set a' \<Longrightarrow> a @ x # r = a' @ x # r' \<Longrightarrow> a = a' \<and> r = r'"
proof (induction a arbitrary: a')
  case Nil
  then show ?case by (cases a') auto
next
  case (Cons y ys)
  then show ?case by (cases a') auto
qed

lemma split_at_last_dash:
  assumes "CHR ''-'' \<notin> set b" and "CHR ''-'' \<notin> set b'"
    and "r @ CHR ''-'' # b = r' @ CHR ''-'' # b'"
  shows "r = r' \<and> b = b'"
proof -
  from assms(3) have "rev (r @ CHR ''-'' # b) = rev (r' @ CHR ''-'' # b')" by simp
  then have "rev b @ CHR ''-'' # rev r = rev b' @ CHR ''-'' # rev r'" by simp
  moreover from assms(1,2) have "CHR ''-'' \<notin> set (rev b)" "CHR ''-'' \<notin> set (rev b')"
    by simp_all
  ultimately have "rev b = rev b' \<and> rev r = rev r'"
    by (intro split_at_first)
  then show ?thesis by simp
qed

lemma dash_notin_kind: "kind \<in> tool_kinds \<Longrightarrow> CHR ''-'' \<notin> set kind"
  by (auto simp: tool_kinds_def)

text \<open>An id determines its timestamp, tool kind and counter, whatever the turn ids are
  as long as they are the session's.\<close>

lemma change_id_inj:
  assumes "change_id tid ts kind i = change_id tid ts' kind' i'"
    and "kind \<in> tool_kinds" and "kind' \<in> tool_kinds"
  shows "ts = ts' \<and> kind = kind' \<and> i = i'"
proof -
  from assms(1) have "(ts @ CHR ''-'' # kind) @ CHR ''-'' # string_of_nat i =
      (ts' @ CHR ''-'' # kind') @ CHR ''-'' # string_of_nat i'"
    by (simp add: change_id_def)
  from split_at_last_dash [OF dash_notin_string_of_nat dash_notin_string_of_nat this]
  have 1: "ts @ CHR ''-'' # kind = ts' @ CHR ''-'' # kind'"
    and 2: "string_of_nat i = string_of_nat i'" by simp_all
  from split_at_last_dash [OF dash_notin_kind [OF assms(2)] dash_notin_kind [OF assms(3)] 1]
    string_of_nat_inj [OF 2]
  show ?thesis by simp
qed

lemma turn_change_id_inj:
  assumes "change_id (sid @ ''-turn-'' @ string_of_nat k) ts kind i =
           change_id (sid @ ''-turn-'' @ string_of_nat k') ts' kind' i'"
    and "kind \<in> tool_kinds" and "kind' \<in> tool_kinds"
  shows "k = k' \<and> ts = ts' \<and> kind = kind' \<and> i = i'"
proof -
  let ?r = "ts @ ''-'' @ kind @ ''-'' @ string_of_nat i"
  let ?r' = "ts' @ ''-'' @ kind' @ ''-'' @ string_of_nat i'"
  from assms(1) have "string_of_nat k @ CHR ''-'' # ?r = string_of_nat k' @ CHR ''-'' # ?r'"
    by (simp add: change_id_def)
  with split_at_first [OF dash_notin_string_of_nat dash_notin_string_of_nat]
  have "string_of_nat k = string_of_nat k'" by blast
  then have k: "k = k'" by (rule string_of_nat_inj)
  with assms change_id_inj [of "sid @ ''-turn-'' @ string_of_nat k" ts kind i ts' kind' i']
  show ?thesis by simp
qed

subsection \<open>Ids of file changes\<close>

lemma tool_kinds_mem:
  "''write'' \<in> tool_kinds" "''edit'' \<in> tool_kinds" "''multiedit'' \<in> tool_kinds"
  by (simp_all add: tool_kinds_def)

lemma fc_id_mkChange: "fc_id (mkChange i ts ty fp nc chs il) = i"
  by (simp add: mkChange_def)

lemma switch_change_id:
  assumes "switch_change tid ts il i b = Some c"
  shows "\<exists>kind. kind \<in> tool_kinds \<and> fc_id c = change_id tid (template ts) kind i"
proof -
  consider (w) "name b = Some ''Write''"
    | (e) "name b \<noteq> Some ''Write''" "name b = Some ''Edit''"
    | (m) "name b \<noteq> Some ''Write''" "name b \<noteq> Some ''Edit''" "name b = Some ''MultiEdit''"
    | (other) "name b \<noteq> Some ''Write''" "name b \<noteq> Some ''Edit''"
        "name b \<noteq> Some ''MultiEdit''"
    by blast
  then show ?thesis
  proof cases
    case w
    with assms have "fc_id c = change_id tid (template ts) ''write'' i"
      by (auto simp: switch_change_def fc_id_mkChange change_id_def)
    with tool_kinds_mem(1) show ?thesis by blast
  next
    case e
    with assms have "fc_id c = change_id tid (template ts) ''edit'' i"
      by (auto simp: switch_change_def fc_id_mkChange change_id_def)
    with tool_kinds_mem(2) show ?thesis by blast
  next
    case m
    with assms have "fc_id c = change_id tid (template ts) ''multiedit'' i"
      by (auto simp: switch_change_def fc_id_mkChange change_id_def)
    with tool_kinds_mem(3) show ?thesis by blast
  next
    case other
    with assms show ?thesis by (simp add: switch_change_def)
  qed
qed

lemma extractAllFileChanges_loop_ids:
  "c \<in> set (extractAllFileChanges_loop tid ts il n bs) \<Longrightarrow>
   \<exists>kind i. kind \<in> tool_kinds \<and> n < i \<and>
     i \<le> n + length (filter (\<lambda>b. block_type b = ''tool_use'') bs) \<and>
     fc_id c = change_id tid (template ts) kind i"
proof (induction bs arbitrary: n)
  case Nil
  then show ?case by simp
next
  case (Cons b bs)
  show ?case
  proof (cases "block_type b = ''tool_use''")
    case False
    with Cons.prems have "c \<in> set (extractAllFileChanges_loop tid ts il n bs)" by simp
    from Cons.IH [OF this] False show ?thesis by simp
  next
    case True
    show ?thesis
    proof (cases "switch_change tid ts il (n + 1) b = Some c")
      case hd: True
      from switch_change_id [OF hd] obtain kind where
        "kind \<in> tool_kinds" "fc_id c = change_id tid (template ts) kind (n + 1)" by blast
      with True show ?thesis by (intro exI [of _ kind] exI [of _ "n + 1"]) simp
    next
      case False
      with Cons.prems True have "c \<in> set (extractAllFileChanges_loop tid ts il (n + 1) bs)"
        by (auto split: option.splits if_splits)
      from Cons.IH [OF this] obtain kind i where "kind \<in> tool_kinds" "n + 1 < i"
        "i \<le> n + 1 + length (filter (\<lambda>b. block_type b = ''tool_use'') bs)"
        "fc_id c = change_id tid (template ts) kind i" by blast
      with True show ?thesis by (intro exI [of _ kind] exI [of _ i]) simp
    qed
  qed
qed

lemma extractAllFileChanges_loop_distinct:
  "distinct (map fc_id (extractAllFileChanges_loop tid ts il n bs))"
proof (induction bs arbitrary: n)
  case Nil
  then show ?case by simp
next
  case (Cons b bs)
  show ?case
  proof (cases "block_type b = ''tool_use''")
    case False
    then show ?thesis using Cons.IH by simp
  next
    case True
    show ?thesis
    proof (cases "switch_change tid ts il (n + 1) b")
      case None
      with True show ?thesis using Cons.IH by simp
    next
      case (Some c)
      from switch_change_id [OF Some] obtain kind where
        k: "kind \<in> tool_kinds" "fc_id c = change_id tid (template ts) kind (n + 1)" by blast
      have "fc_id c \<noteq> fc_id c'"
        if "c' \<in> set (extractAllFileChanges_loop tid ts il (n + 1) bs)" for c'
      proof
        assume e: "fc_id c = fc_id c'"
        from extractAllFileChanges_loop_ids [OF that] obtain kind' i where
          k': "kind' \<in> tool_kinds" "n + 1 < i" "fc_id c' = change_id tid (template ts) kind' i"
          by blast
        from e k k' have "change_id tid (template ts) kind (n + 1) =
            change_id tid (template ts) kind' i" by simp
        from change_id_inj [OF this k(1) k'(1)] k'(2) show False by simp
      qed
      then have "fc_id c \<notin> fc_id ` set (extractAllFileChanges_loop tid ts il (n + 1) bs)"
        by blast
      with True Some show ?thesis using Cons.IH by simp
    qed
  qed
qed

lemma extractAllFileChanges_distinct:
  "distinct (map fc_id (extractAllFileChanges entry tid il))"
  by (simp add: extractAllFileChanges_def extractAllFileChanges_loop_distinct
      split: option.splits message_content.splits)

lemma extractAllFileChanges_ids:
  assumes "c \<in> set (extractAllFileChanges entry tid il)"
  shows "\<exists>kind i. kind \<in> tool_kinds \<and> 1 \<le> i \<and> i \<le> tool_use_count entry \<and>
           fc_id c = change_id tid (template (timestamp entry)) kind i"
proof -
  from assms obtain bs where m: "message entry = Some (ArrayContent bs)"
    and c: "c \<in> set (extractAllFileChanges_loop tid (timestamp entry) il 0 bs)"
  proof (cases "message entry")
    case None
    with assms show ?thesis by (simp add: extractAllFileChanges_def)
  next
    case (Some mc)
    with assms that show ?thesis
      by (cases mc) (simp_all add: extractAllFileChanges_def)
  qed
  from extractAllFileChanges_loop_ids [OF c] obtain kind i where
    "kind \<in> tool_kinds" "0 < i" "i \<le> length (filter (\<lambda>b. block_type b = ''tool_use'') bs)"
    "fc_id c = change_id tid (template (timestamp entry)) kind i" by auto
  with m show ?thesis
    by (intro exI [of _ kind] exI [of _ i]) (simp add: tool_use_count_def)
qed

lemma currentTurn_assistant_step:
  assumes "currentTurn (assistant_step sid il now entry st) = Some t'"
  shows "(\<exists>t. currentTurn st = Some t \<and> turn_id t' = turn_id t) \<or>
         turn_id t' = sid @ ''-turn-'' @ string_of_nat (turnCounter st + 1)"
proof (cases "entry_type entry = ''assistant'' \<and> content_truthy (message entry)
    \<and> is_array (message entry)")
  case False
  then have "assistant_step sid il now entry st = st"
    by (simp only: assistant_step_def if_False)
  with assms show ?thesis by simp
next
  case True
  with assms show ?thesis
    by (cases "currentTurn st")
       (auto simp: assistant_step_def Let_def add_to_turn_def new_turn_def split: if_splits)
qed

lemma ids_wellformed_user_step:
  assumes "ids_wellformed sid seen st"
  shows "ids_wellformed sid seen (user_step sid il now entry st)"
proof -
  have "currentTurn (user_step sid il now entry st) = Some t \<Longrightarrow>
      currentTurn st = Some t \<or> turn_id t = sid @ ''-turn-'' @ string_of_nat (turnCounter st + 1)"
    for t
    by (auto simp: user_step_def new_turn_def split: if_splits)
  with assms have "\<forall>t. currentTurn (user_step sid il now entry st) = Some t \<longrightarrow>
      (\<exists>k. turn_id t = sid @ ''-turn-'' @ string_of_nat k)"
    unfolding ids_wellformed_def by blast
  with assms show ?thesis
    unfolding ids_wellformed_def all_changes_user_step by simp
qed

lemma turn_id_or_else:
  assumes "\<forall>t. cur = Some t \<longrightarrow> (\<exists>k. turn_id t = sid @ ''-turn-'' @ string_of_nat k)"
  shows "\<exists>k. or_else (map_option turn_id cur) (sid @ ''-turn-0'') =
           sid @ ''-turn-'' @ string_of_nat k"
proof (cases cur)
  case None
  then show ?thesis
    by (intro exI [of _ 0]) (simp add: or_else_def string_of_nat_small)
next
  case (Some t)
  with assms obtain k where "turn_id t = sid @ ''-turn-'' @ string_of_nat k" by blast
  with Some show ?thesis by (intro exI [of _ k]) (simp add: or_else_def)
qed

lemma ids_wellformed_assistant_step:
  assumes inv: "ids_wellformed sid seen st"
    and fresh: "entry_type entry = ''assistant'' \<longrightarrow> template (timestamp entry) \<notin> seen"
  shows "ids_wellformed sid
           (if entry_type entry = ''assistant'' then insert (template (timestamp entry)) seen
            else seen)
           (assistant_step sid il now entry st)"
proof -
  let ?T = "template (timestamp entry)"
  let ?st' = "assistant_step sid il now entry st"
  from inv have cur: "\<forall>t. currentTurn st = Some t \<longrightarrow>
      (\<exists>k. turn_id t = sid @ ''-turn-'' @ string_of_nat k)"
    by (simp add: ids_wellformed_def)
  have cur': "\<forall>t. currentTurn ?st' = Some t \<longrightarrow>
      (\<exists>k. turn_id t = sid @ ''-turn-'' @ string_of_nat k)"
  proof (intro allI impI)
    fix t assume "currentTurn ?st' = Some t"
    from currentTurn_assistant_step [OF this]
    show "\<exists>k. turn_id t = sid @ ''-turn-'' @ string_of_nat k"
    proof
      assume "\<exists>t0. currentTurn st = Some t0 \<and> turn_id t = turn_id t0"
      then obtain t0 where "currentTurn st = Some t0" "turn_id t = turn_id t0" by blast
      with cur show ?thesis by simp
    next
      assume "turn_id t = sid @ ''-turn-'' @ string_of_nat (turnCounter st + 1)"
      then show ?thesis by (rule exI)
    qed
  qed
  show ?thesis
  proof (cases "entry_type entry = ''assistant''")
    case False
    then have "all_changes ?st' = all_changes st" by (simp add: all_changes_assistant_step)
    with inv cur' False show ?thesis by (simp add: ids_wellformed_def)
  next
    case True
    from turn_id_or_else [OF cur] obtain k0 where
      tid: "or_else (map_option turn_id (currentTurn st)) (sid @ ''-turn-0'') =
            sid @ ''-turn-'' @ string_of_nat k0" by blast
    let ?chs = "extractAllFileChanges entry (sid @ ''-turn-'' @ string_of_nat k0) il"
    from True tid have all: "all_changes ?st' = all_changes st @ ?chs"
      by (simp add: all_changes_assistant_step)
    have new: "\<exists>kind n. kind \<in> tool_kinds \<and>
        fc_id c = change_id (sid @ ''-turn-'' @ string_of_nat k0) ?T kind n"
      if "c \<in> set ?chs" for c
      using extractAllFileChanges_ids [OF that] by blast
    from inv have old: "\<exists>k ts kind n. ts \<in> seen \<and> kind \<in> tool_kinds \<and>
        fc_id c = change_id (sid @ ''-turn-'' @ string_of_nat k) ts kind n"
      if "c \<in> set (all_changes st)" for c
      using that by (simp add: ids_wellformed_def)
    have disj: "fc_id c \<noteq> fc_id c'" if "c \<in> set (all_changes st)" "c' \<in> set ?chs" for c c'
    proof
      assume e: "fc_id c = fc_id c'"
      from old [OF that(1)] obtain k ts kind n where o: "ts \<in> seen" "kind \<in> tool_kinds"
        "fc_id c = change_id (sid @ ''-turn-'' @ string_of_nat k) ts kind n" by blast
      from new [OF that(2)] obtain kind' n' where n: "kind' \<in> tool_kinds"
        "fc_id c' = change_id (sid @ ''-turn-'' @ string_of_nat k0) ?T kind' n'" by blast
      from e o(3) n(2) have "change_id (sid @ ''-turn-'' @ string_of_nat k) ts kind n =
          change_id (sid @ ''-turn-'' @ string_of_nat k0) ?T kind' n'" by simp
      from turn_change_id_inj [OF this o(2) n(1)] have "ts = ?T" by simp
      with o(1) fresh True show False by simp
    qed
    from inv have "distinct (map fc_id (all_changes st))" by (simp add: ids_wellformed_def)
    with disj extractAllFileChanges_distinct [of entry "sid @ ''-turn-'' @ string_of_nat k0" il]
    have d: "distinct (map fc_id (all_changes ?st'))"
      unfolding all by (auto simp: distinct_append)
    have f: "\<exists>k ts kind n. ts \<in> insert ?T seen \<and> kind \<in> tool_kinds \<and>
        fc_id c = change_id (sid @ ''-turn-'' @ string_of_nat k) ts kind n"
      if "c \<in> set (all_changes ?st')" for c
    proof (cases "c \<in> set (all_changes st)")
      case True
      from old [OF this] show ?thesis by blast
    next
      case False
      with that have "c \<in> set ?chs" unfolding all by simp
      from new [OF this] show ?thesis by blast
    qed
    from d f cur' True show ?thesis unfolding ids_wellformed_def by simp
  qed
qed

lemma ids_wellformed_turn_steps:
  assumes "ids_wellformed sid seen st"
    and "distinct (map (\<lambda>e. template (timestamp e))
           (filter (\<lambda>e. entry_type e = ''assistant'') entries))"
    and "\<forall>e \<in> set entries. entry_type e = ''assistant'' \<longrightarrow> template (timestamp e) \<notin> seen"
  shows "\<exists>seen'. ids_wellformed sid seen' (foldl (turn_step sid il now) st entries)"
  using assms
proof (induction entries arbitrary: st seen)
  case Nil
  then show ?case by auto
next
  case (Cons entry entries)
  let ?seen' = "if entry_type entry = ''assistant''
      then insert (template (timestamp entry)) seen else seen"
  from Cons.prems(1) have "ids_wellformed sid seen (user_step sid il now entry st)"
    by (rule ids_wellformed_user_step)
  moreover from Cons.prems(3)
  have "entry_type entry = ''assistant'' \<longrightarrow> template (timestamp entry) \<notin> seen" by simp
  ultimately have 1: "ids_wellformed sid ?seen' (turn_step sid il now st entry)"
    unfolding turn_step_def by (rule ids_wellformed_assistant_step)
  from Cons.prems(2) have 2: "distinct (map (\<lambda>e. template (timestamp e))
      (filter (\<lambda>e. entry_type e = ''assistant'') entries))"
    by (simp split: if_splits)
  have 3: "\<forall>e \<in> set entries. entry_type e = ''assistant'' \<longrightarrow>
      template (timestamp e) \<notin> ?seen'"
  proof (intro ballI impI)
    fix e assume e: "e \<in> set entries" "entry_type e = ''assistant''"
    with Cons.prems(3) have old: "template (timestamp e) \<notin> seen" by simp
    show "template (timestamp e) \<notin> ?seen'"
    proof (cases "entry_type entry = ''assistant''")
      case False
      with old show ?thesis by simp
    next
      case True
      from e have "template (timestamp e) \<in> set (map (\<lambda>e. template (timestamp e))
          (filter (\<lambda>e. entry_type e = ''assistant'') entries))" by force
      moreover from True Cons.prems(2) have "template (timestamp entry) \<notin>
          set (map (\<lambda>e. template (timestamp e))
            (filter (\<lambda>e. entry_type e = ''assistant'') entries))" by simp
      ultimately have "template (timestamp e) \<noteq> template (timestamp entry)" by metis
      with old True show ?thesis by simp
    qed
  qed
  from Cons.IH [OF 1 2 3] show ?case by simp
qed

lemma ids_wellformed_initial_state: "ids_wellformed sid {} initial_state"
  by (simp add: ids_wellformed_def all_changes_initial_state) (simp add: initial_state_def)

lemma turns_of_distinct_ids:
  assumes "distinct (map (\<lambda>e. template (timestamp e))
      (filter (\<lambda>e. entry_type e = ''assistant'') entries))"
  shows "distinct (map fc_id (concat (map fileChanges (turns_of sid il now entries))))"
proof -
  from ids_wellformed_turn_steps [OF ids_wellformed_initial_state assms, of sid il now]
  have "\<exists>seen'. ids_wellformed sid seen'
      (foldl (turn_step sid il now) initial_state entries)"
    by simp
  then obtain seen' where
    "ids_wellformed sid seen' (foldl (turn_step sid il now) initial_state entries)"
    by blast
  then show ?thesis by (simp add: turns_of_all_changes ids_wellformed_def)
qed

text \<open>
  Claim C5, as the code has it on the turn path: the ids of the changes extracted from
  one entry are pairwise distinct, each being the turn id, the timestamp, the tool kind
  and the 1-based position among the entry's \<^verbatim>\<open>tool_use\<close> blocks; and on a session
  without a \<^verbatim>\<open>null\<close> line whose assistant entries have pairwise distinct timestamps,
  the turns are built and the ids of all their changes are pairwise distinct.
\<close>

theorem change_ids_unique:
  "distinct (map fc_id (extractAllFileChanges entry turnId il)) \<and>
   (\<forall>c \<in> set (extractAllFileChanges entry turnId il).
      \<exists>kind i. kind \<in> tool_kinds \<and> 1 \<le> i \<and> i \<le> tool_use_count entry \<and>
        fc_id c = change_id turnId (template (timestamp entry)) kind i) \<and>
   (distinct (assistant_timestamps ls) \<and> Some JsonNull \<notin> set ls \<longrightarrow>
      (\<exists>ts. build_turns sid il now ls = Inr ts \<and>
         distinct (map fc_id (concat (map fileChanges ts)))))"
proof (intro conjI impI)
  show "distinct (map fc_id (extractAllFileChanges entry turnId il))"
    by (rule extractAllFileChanges_distinct)
  show "\<forall>c \<in> set (extractAllFileChanges entry turnId il).
      \<exists>kind i. kind \<in> tool_kinds \<and> 1 \<le> i \<and> i \<le> tool_use_count entry \<and>
        fc_id c = change_id turnId (template (timestamp entry)) kind i"
    using extractAllFileChanges_ids by blast
  assume "distinct (assistant_timestamps ls) \<and> Some JsonNull \<notin> set ls"
  then have "build_turns sid il now ls = Inr (turns_of sid il now (line_entries ls))"
    and "distinct (map fc_id (concat (map fileChanges (turns_of sid il now (line_entries ls)))))"
    by (simp_all add: build_turns_entries turns_of_distinct_ids assistant_timestamps_def)
  then show "\<exists>ts. build_turns sid il now ls = Inr ts \<and>
      distinct (map fc_id (concat (map fileChanges ts)))"
    by simp
qed

lemma two_writes_ids:
  "map fc_id (extractAllFileChanges two_writes_entry ''s1-turn-1'' True) =
     [''s1-turn-1-t1-write-1'', ''s1-turn-1-t1-write-2'']"
  by (simp add: extract_defs two_writes_entry_def assistant_entry_def tool_use_block_def
      write_input_def string_of_nat_Suc string_of_nat_small)

lemma distinct_timestamp_ids:
  "map fc_id (concat (map fileChanges
     (turns_of ''s1'' True ''now'' (line_entries distinct_timestamp_lines)))) =
     [''s1-turn-1-t1-write-1'', ''s1-turn-1-t2-write-1'']"
  by (simp add: distinct_timestamp_lines_def sample_defs turn_defs string_of_nat_small
      string_of_nat_Suc Let_def)

theorem change_ids_unique_witness:
  "map fc_id (extractAllFileChanges two_writes_entry ''s1-turn-1'' True) =
     [''s1-turn-1-t1-write-1'', ''s1-turn-1-t1-write-2''] \<and>
   distinct (map fc_id (extractAllFileChanges two_writes_entry ''s1-turn-1'' True)) \<and>
   assistant_timestamps distinct_timestamp_lines = [''t1'', ''t2''] \<and>
   (\<exists>ts. build_turns ''s1'' True ''now'' distinct_timestamp_lines = Inr ts \<and>
      map fc_id (concat (map fileChanges ts)) =
        [''s1-turn-1-t1-write-1'', ''s1-turn-1-t2-write-1''] \<and>
      distinct (map fc_id (concat (map fileChanges ts))))"
proof -
  have ts: "assistant_timestamps distinct_timestamp_lines = [''t1'', ''t2'']"
    by (simp add: assistant_timestamps_def distinct_timestamp_lines_def sample_defs)
  have nn: "Some JsonNull \<notin> set distinct_timestamp_lines"
    by (simp add: distinct_timestamp_lines_def)
  from ts nn
    change_ids_unique [of two_writes_entry "''s1-turn-1''" True distinct_timestamp_lines
      "''s1''" "''now''"]
  have "\<exists>ts. build_turns ''s1'' True ''now'' distinct_timestamp_lines = Inr ts \<and>
      distinct (map fc_id (concat (map fileChanges ts)))"
    and d: "distinct (map fc_id (extractAllFileChanges two_writes_entry ''s1-turn-1'' True))"
    by simp_all
  then obtain ts' where b: "build_turns ''s1'' True ''now'' distinct_timestamp_lines = Inr ts'"
    and dd: "distinct (map fc_id (concat (map fileChanges ts')))" by blast
  from b build_turns_entries [OF nn, of "''s1''" True "''now''"]
  have "ts' = turns_of ''s1'' True ''now'' (line_entries distinct_timestamp_lines)" by simp
  with distinct_timestamp_ids
  have "map fc_id (concat (map fileChanges ts')) =
      [''s1-turn-1-t1-write-1'', ''s1-turn-1-t2-write-1'']" by simp
  with b dd
  have "\<exists>ts. build_turns ''s1'' True ''now'' distinct_timestamp_lines = Inr ts \<and>
      map fc_id (concat (map fileChanges ts)) =
        [''s1-turn-1-t1-write-1'', ''s1-turn-1-t2-write-1''] \<and>
      distinct (map fc_id (concat (map fileChanges ts)))"
    by (intro exI [of _ ts']) simp
  with two_writes_ids d ts show ?thesis by (intro conjI)
qed

lemma same_timestamp_ids:
  "map fc_id (concat (map fileChanges
     (turns_of ''s1'' True ''now'' (line_entries same_timestamp_lines)))) =
     [''s1-turn-1-t1-write-1'', ''s1-turn-1-t1-write-1'']"
  by (simp add: same_timestamp_lines_def sample_defs turn_defs string_of_nat_small
      string_of_nat_Suc Let_def)

lemma same_timestamp_build_turns:
  "build_turns ''s1'' True ''now'' same_timestamp_lines =
     Inr (turns_of ''s1'' True ''now'' (line_entries same_timestamp_lines))"
  by (rule build_turns_entries) (simp add: same_timestamp_lines_def)

lemma same_timestamp_flat_ids:
  "map fc_id (parseLogFile same_timestamp_lines) = [''t1-write'', ''t1-write'']"
  by (simp add: same_timestamp_lines_def sample_defs extractFileChange_def mkChange_def
      input_prop_def)

text \<open>
  Two assistant entries of one turn with the same timestamp, each with one Write: both
  changes get the same id, on the turn path and on the flat path.
\<close>

theorem shared_timestamp_counterexample:
  "(case build_turns ''s1'' True ''now'' same_timestamp_lines of
      Inr ts \<Rightarrow> \<not> distinct (map fc_id (concat (map fileChanges ts)))
    | Inl err \<Rightarrow> False) \<and>
   \<not> distinct (map fc_id (parseLogFile same_timestamp_lines))"
  by (simp add: same_timestamp_build_turns same_timestamp_ids same_timestamp_flat_ids)

subsection \<open>Failed reverts\<close>

lemma revertChange_error_ledger:
  "revertChange fault tmp now change st = (st', Some err) \<Longrightarrow> ledger st' = ledger st"
  by (auto simp: revertChange_def split: if_splits option.splits)

lemma revertChange_io_fails:
  assumes "canRevert change" and "io_fails fault change st"
  shows "\<exists>st'. revertChange fault tmp now change st = (st', Some IoFailure)"
  using assms
  by (auto simp: revertChange_def io_fails_def split: if_splits option.splits)

text \<open>
  Claim C8: when the write, rename or delete that the revert of a revertable change
  needs fails, \<^verbatim>\<open>handleRevert\<close> answers with a \<^verbatim>\<open>revertError\<close> message and the ledger
  is as it was before: no entry is produced for the change.
\<close>

theorem failed_revert_not_recorded:
  assumes "find (\<lambda>c. pc_id c = changeId) (server_changes srv) = Some change"
    and "canRevert change"
    and "io_fails fault change (tracker srv)"
  shows "\<exists>srv' m. handleRevert fault tmp message_of now changeId srv = (srv', RevertError m) \<and>
           m = or_else (message_of IoFailure) ''Failed to revert change'' \<and>
           ledger (tracker srv') = ledger (tracker srv)"
proof -
  from revertChange_io_fails [OF assms(2,3)] obtain st' where
    r: "revertChange fault tmp now change (tracker srv) = (st', Some IoFailure)" by blast
  from revertChange_error_ledger [OF r] have "ledger st' = ledger (tracker srv)" .
  with assms(1) r show ?thesis by (simp add: handleRevert_def)
qed

theorem failed_revert_not_recorded_witness:
  "\<exists>srv'. handleRevert WriteFails (\<lambda>p. p @ ''.tmp'') (\<lambda>e. None) ''now'' ''c1'' sample_server =
            (srv', RevertError ''Failed to revert change'') \<and>
          ledger (tracker srv') ''c1'' = None"
proof -
  have 1: "find (\<lambda>c. pc_id c = ''c1'') (server_changes sample_server) = Some sample_change"
    by (simp add: sample_server_def sample_change_def)
  have 2: "canRevert sample_change" by (simp add: sample_change_def)
  have 3: "io_fails WriteFails sample_change (tracker sample_server)"
    by (simp add: io_fails_def sample_change_def)
  from failed_revert_not_recorded [OF 1 2 3, of "\<lambda>p. p @ ''.tmp''" "\<lambda>e. None" "''now''"]
  show ?thesis by (auto simp: or_else_def sample_server_def)
qed

end
